theory Spec2Isabelle
  imports Main "HOL-Library.AList"
begin

section \<open>The forward supervisor of local-dependency-forwarder\<close>

text \<open>
  A shallow embedding of the \<^verbatim>\<open>ForwardManager\<close> class (forwardManager.ts) and of the
  configuration types it consumes (config.ts). The source material holds two revisions of
  the class; the embedding follows the later one, the revision with the change emitter,
  the stale-holder pruning and the health sweep.

  Every operation is taken as one atomic step on the manager's state: the interleaving of
  other callbacks at an \<^verbatim>\<open>await\<close> is outside the model. What an operation reads from
  the host (the clock, the outcome of a TCP probe, a child's exit code, the file system)
  is an argument of its model.
\<close>

subsection \<open>Configuration (config.ts)\<close>

text \<open>
  \<^verbatim>\<open>localPort\<close> and \<^verbatim>\<open>remotePort\<close> are TCP port numbers: JavaScript numbers that
  hold a non-negative integer, modelled as \<^typ>\<open>nat\<close>. The fields of the three
  configuration types carry a prefix (\<open>t_\<close>, \<open>f_\<close>, \<open>e_\<close>), since the types share field
  names; the \<^verbatim>\<open>id\<close> of a key is \<open>key_id\<close>.
\<close>

record SshTunnel =
  t_id :: string
  t_title :: string
  t_localPort :: nat
  t_remoteHost :: string
  t_remotePort :: nat
  t_sshHost :: string

record K8sForward =
  f_id :: string
  f_title :: string
  f_namespace :: string
  f_serviceName :: string
  f_localPort :: nat
  f_remotePort :: nat

text \<open>
  \<^verbatim>\<open>kubectlContext\<close> is optional. \<^verbatim>\<open>sshAddKeys\<close> is read by
  \<^verbatim>\<open>addSshKeysIfPresent\<close> as \<^verbatim>\<open>env.sshAddKeys || []\<close>, so an absent field is the
  empty list.
\<close>

record EnvironmentConfig =
  e_id :: string
  e_name :: string
  e_kubectlContext :: "string option"
  e_sshTunnels :: "SshTunnel list"
  e_k8sForwards :: "K8sForward list"
  e_sshAddKeys :: "string list"

datatype Kind = Ssh | K8s

record ForwardKey =
  envId :: string
  kind :: Kind
  key_id :: string

subsection \<open>Strings\<close>

text \<open>The text of a kind: the string literals \<^verbatim>\<open>'ssh'\<close> and \<^verbatim>\<open>'k8s'\<close>.\<close>

fun kindStr :: "Kind \<Rightarrow> string" where
  "kindStr Ssh = ''ssh''"
| "kindStr K8s = ''k8s''"

text \<open>
  A number inside a template literal: the decimal digits of a non-negative integer
  (JavaScript prints them so below \<open>10\<^sup>2\<^sup>1\<close>).
\<close>

definition digitChar :: "nat \<Rightarrow> char" where
  "digitChar d = ''0123456789'' ! d"

fun numToString :: "nat \<Rightarrow> string" where
  "numToString n =
     (if n < 10 then [digitChar n]
      else numToString (n div 10) @ [digitChar (n mod 10)])"

declare numToString.simps [simp del]

text \<open>\<^verbatim>\<open>Array.prototype.join\<close>.\<close>

fun join :: "string \<Rightarrow> string list \<Rightarrow> string" where
  "join sep [] = []"
| "join sep [x] = x"
| "join sep (x # y # ys) = x @ sep @ join sep (y # ys)"

text \<open>
  \<^verbatim>\<open>Array.from(new Set(xs))\<close>: the elements of \<open>xs\<close> in the order of their first
  occurrence.
\<close>

fun uniq :: "'a list \<Rightarrow> 'a list" where
  "uniq [] = []"
| "uniq (x # xs) = x # uniq (removeAll x xs)"

subsection \<open>The registry index\<close>

text \<open>\<^verbatim>\<open>keyToId\<close>: the template \<^verbatim>\<open>`${key.envId}:${key.kind}:${key.id}`\<close>.\<close>

definition keyToId :: "ForwardKey \<Rightarrow> string" where
  "keyToId k = envId k @ '':'' @ kindStr (kind k) @ '':'' @ key_id k"

subsection \<open>The manager's state\<close>

text \<open>
  A child process is known by its handle: the position of its \<^verbatim>\<open>spawn\<close> call in the
  trace of all spawn calls.
\<close>

record RunningProc =
  key :: ForwardKey
  process :: nat
  command :: string
  args :: "string list"
  localPort :: nat
  startedAt :: int

text \<open>
  \<^verbatim>\<open>processes\<close> and \<^verbatim>\<open>portFailureCounts\<close> are JavaScript \<^verbatim>\<open>Map\<close>s, which iterate
  in insertion order: association lists, with \<^const>\<open>map_of\<close> for \<^verbatim>\<open>get\<close>,
  \<^const>\<open>AList.update\<close> for \<^verbatim>\<open>set\<close> (a known key keeps its place, a new key goes to the
  end) and \<^const>\<open>AList.delete\<close> for \<^verbatim>\<open>delete\<close>.

  The effects on the host are traces: \<open>outputLog\<close> the lines appended to the output channel,
  \<open>fired\<close> the number of calls of \<^verbatim>\<open>onDidChangeEmitter.fire()\<close>, \<open>spawned\<close> the
  command and arguments of every \<^verbatim>\<open>spawn\<close>, \<open>killed\<close> the handles on which
  \<^verbatim>\<open>kill()\<close> was called, \<open>probes\<close> the port and timeout of every
  \<^verbatim>\<open>isPortOpenNow\<close>.
\<close>

record Manager =
  envs :: "EnvironmentConfig list"
  processes :: "(string \<times> RunningProc) list"
  portFailureCounts :: "(string \<times> nat) list"
  outputLog :: "string list"
  fired :: nat
  spawned :: "(string \<times> string list) list"
  killed :: "nat list"
  probes :: "(nat \<times> nat) list"

text \<open>A thrown \<^verbatim>\<open>Error\<close>, with its message.\<close>

datatype error = Error string

definition healthGraceMs :: int where
  "healthGraceMs = 20000"

definition newManager :: "EnvironmentConfig list \<Rightarrow> Manager" where
  "newManager es = \<lparr>envs = es, processes = [], portFailureCounts = [], outputLog = [],
     fired = 0, spawned = [], killed = [], probes = []\<rparr>"

definition setEnvironments :: "EnvironmentConfig list \<Rightarrow> Manager \<Rightarrow> Manager" where
  "setEnvironments es s = s\<lparr>envs := es\<rparr>"

definition isRunning :: "Manager \<Rightarrow> ForwardKey \<Rightarrow> bool" where
  "isRunning s k = (map_of (processes s) (keyToId k) \<noteq> None)"

definition findByPort :: "Manager \<Rightarrow> nat \<Rightarrow> RunningProc option" where
  "findByPort s port = find (\<lambda>p. localPort p = port) (map snd (processes s))"

definition getOccupiedPorts :: "Manager \<Rightarrow> nat list" where
  "getOccupiedPorts s = map (\<lambda>(i, p). localPort p) (processes s)"

definition getPortUsage :: "Manager \<Rightarrow> (nat \<times> string) list" where
  "getPortUsage s = map (\<lambda>(i, p). (localPort p, keyToId (key p))) (processes s)"

subsection \<open>Launching\<close>

text \<open>
  \<^verbatim>\<open>spawnAndTrack\<close>: spawn, register under the key's index with the start time, log,
  fire. The handlers it installs run later, on the child's events.
\<close>

definition spawnAndTrack ::
  "int \<Rightarrow> ForwardKey \<Rightarrow> string \<Rightarrow> string list \<Rightarrow> nat \<Rightarrow> Manager \<Rightarrow> Manager" where
  "spawnAndTrack now k cmd as port s =
     (let child = length (spawned s);
          i = keyToId k
      in s\<lparr>spawned := spawned s @ [(cmd, as)],
            processes := AList.update i
               \<lparr>key = k, process = child, command = cmd, args = as, localPort = port,
                startedAt = now\<rparr> (processes s),
            outputLog := outputLog s @ [''Started: '' @ cmd @ '' '' @ join '' '' as],
            fired := fired s + 1\<rparr>)"

text \<open>
  The host as \<^verbatim>\<open>addSshKeysIfPresent\<close> sees it: \<open>homeJoin rest\<close> is
  \<^verbatim>\<open>path.join(os.homedir(), rest)\<close> and \<open>existsSync\<close> is \<^verbatim>\<open>fs.existsSync\<close>.
\<close>

record Host =
  homeJoin :: "string \<Rightarrow> string"
  existsSync :: "string \<Rightarrow> bool"

definition expand :: "Host \<Rightarrow> string \<Rightarrow> string" where
  "expand h p =
     (if p = [] then p
      else if hd p = CHR ''~'' then homeJoin h (tl p)
      else p)"

definition sshAddStep :: "Host \<Rightarrow> string \<Rightarrow> Manager \<Rightarrow> Manager" where
  "sshAddStep h file s =
     (if \<not> existsSync h file then s
      else s\<lparr>spawned := spawned s @ [(''ssh-add'', [''-q'', file])],
             outputLog := outputLog s @ [''ssh-add attempted for '' @ file]\<rparr>)"

definition addSshKeysIfPresent :: "Host \<Rightarrow> EnvironmentConfig \<Rightarrow> Manager \<Rightarrow> Manager" where
  "addSshKeysIfPresent h env s =
     (let keys = e_sshAddKeys env
      in if keys = [] then s
         else fold (sshAddStep h) (uniq (map (expand h) keys)) s)"

text \<open>
  \<^verbatim>\<open>pruneDeadByPort\<close>; \<open>ok\<close> is what \<^verbatim>\<open>isPortOpenNow(port, 300)\<close> answers.
\<close>

definition pruneDeadByPort :: "bool \<Rightarrow> nat \<Rightarrow> Manager \<Rightarrow> Manager" where
  "pruneDeadByPort ok port s =
     (case findByPort s port of
        None \<Rightarrow> s
      | Some holder \<Rightarrow>
          (let s1 = s\<lparr>probes := probes s @ [(port, 300)]\<rparr>
           in if ok then s1
              else s1\<lparr>killed := killed s1 @ [process holder],
                      processes := filter (\<lambda>(i, p). localPort p \<noteq> port) (processes s1),
                      fired := fired s1 + 1\<rparr>))"

definition sshArgs :: "SshTunnel \<Rightarrow> string list" where
  "sshArgs item =
     [''-v'',
      ''-o'', ''ExitOnForwardFailure=yes'',
      ''-o'', ''ServerAliveInterval=60'',
      ''-o'', ''ServerAliveCountMax=3'',
      ''-o'', ''ControlMaster=no'',
      ''-o'', ''ControlPersist=no'',
      ''-o'', ''StrictHostKeyChecking=no'',
      ''-NL'', numToString (t_localPort item) @ '':'' @ t_remoteHost item @ '':''
                 @ numToString (t_remotePort item),
      t_sshHost item]"

text \<open>
  A \<^verbatim>\<open>kubectlContext\<close> that is absent or the empty string is falsy and adds nothing.
\<close>

definition kubectlArgs :: "EnvironmentConfig \<Rightarrow> K8sForward \<Rightarrow> string list" where
  "kubectlArgs env item =
     (case e_kubectlContext env of
        None \<Rightarrow> []
      | Some c \<Rightarrow> if c = [] then [] else [''--context'', c])
     @ [''-n'', f_namespace item,
        ''port-forward'', ''services/'' @ f_serviceName item,
        numToString (f_localPort item) @ '':'' @ numToString (f_remotePort item)]"

text \<open>
  The port conflict check, which \<^verbatim>\<open>start\<close> writes out once for each kind: a holder of
  the port is pruned if stale, and a holder that is still there is the error. \<open>ok\<close> is
  the answer of the probe, should one be made.
\<close>

definition portCheck :: "bool \<Rightarrow> nat \<Rightarrow> Manager \<Rightarrow> error option \<times> Manager" where
  "portCheck ok port s =
     (if findByPort s port \<noteq> None then
        (let s1 = pruneDeadByPort ok port s
         in if findByPort s1 port \<noteq> None
            then (Some (Error (''Port '' @ numToString port
                                 @ '' is already used by another forward'')), s1)
            else (None, s1))
      else (None, s))"

text \<open>
  \<^verbatim>\<open>start\<close>. An exception leaves the state as it is at the \<^verbatim>\<open>throw\<close>, so the result
  is the error, if any, with the state reached. The \<^verbatim>\<open>console.log\<close> that ends the
  Kubernetes branch is left out.
\<close>

definition start ::
  "Host \<Rightarrow> int \<Rightarrow> bool \<Rightarrow> ForwardKey \<Rightarrow> Manager \<Rightarrow> error option \<times> Manager" where
  "start h now ok k s =
     (if isRunning s k then (None, s)
      else case find (\<lambda>e. e_id e = envId k) (envs s) of
        None \<Rightarrow> (Some (Error (''Unknown env '' @ envId k)), s)
      | Some env \<Rightarrow>
          (let s1 = addSshKeysIfPresent h env s
           in if kind k = Ssh then
                (case find (\<lambda>t. t_id t = key_id k) (e_sshTunnels env) of
                   None \<Rightarrow> (Some (Error (''Unknown ssh tunnel '' @ key_id k)), s1)
                 | Some item \<Rightarrow>
                     (case portCheck ok (t_localPort item) s1 of
                        (Some e, s2) \<Rightarrow> (Some e, s2)
                      | (None, s2) \<Rightarrow>
                          (None, spawnAndTrack now k ''ssh'' (sshArgs item)
                                   (t_localPort item) s2)))
              else
                (case find (\<lambda>f. f_id f = key_id k) (e_k8sForwards env) of
                   None \<Rightarrow> (Some (Error (''Unknown k8s forward '' @ key_id k)), s1)
                 | Some item \<Rightarrow>
                     (case portCheck ok (f_localPort item) s1 of
                        (Some e, s2) \<Rightarrow> (Some e, s2)
                      | (None, s2) \<Rightarrow>
                          (None, spawnAndTrack now k ''kubectl'' (kubectlArgs env item)
                                   (f_localPort item) s2)))))"

subsection \<open>Stopping\<close>

definition stop :: "ForwardKey \<Rightarrow> Manager \<Rightarrow> Manager" where
  "stop k s =
     (let i = keyToId k
      in case map_of (processes s) i of
           None \<Rightarrow> s
         | Some running \<Rightarrow>
             s\<lparr>killed := killed s @ [process running],
               processes := AList.delete i (processes s),
               fired := fired s + 1\<rparr>)"

text \<open>
  Both batch stops walk a copy of the entries (\<^verbatim>\<open>[...this.processes.entries()]\<close>).
\<close>

definition stopEnvStep :: "string \<Rightarrow> string \<times> RunningProc \<Rightarrow> Manager \<Rightarrow> Manager" where
  "stopEnvStep e ip s =
     (case ip of (i, p) \<Rightarrow>
        if envId (key p) = e
        then s\<lparr>killed := killed s @ [process p], processes := AList.delete i (processes s)\<rparr>
        else s)"

definition stopAllForEnv :: "string \<Rightarrow> Manager \<Rightarrow> Manager" where
  "stopAllForEnv e s =
     (let s1 = fold (stopEnvStep e) (processes s) s
      in s1\<lparr>fired := fired s1 + 1\<rparr>)"

definition stopAllStep :: "string \<times> RunningProc \<Rightarrow> Manager \<Rightarrow> Manager" where
  "stopAllStep ip s =
     (case ip of (i, p) \<Rightarrow>
        s\<lparr>killed := killed s @ [process p], processes := AList.delete i (processes s)\<rparr>)"

definition stopAll :: "Manager \<Rightarrow> Manager" where
  "stopAll s =
     (if length (processes s) = 0 then s
      else let s1 = fold stopAllStep (processes s) s
           in s1\<lparr>fired := fired s1 + 1\<rparr>)"

subsection \<open>The health sweep\<close>

text \<open>The failures counted so far for an index: \<^verbatim>\<open>portFailureCounts.get(id) || 0\<close>.\<close>

definition failuresOf :: "Manager \<Rightarrow> string \<Rightarrow> nat" where
  "failuresOf s i = (case map_of (portFailureCounts s) i of None \<Rightarrow> 0 | Some c \<Rightarrow> c)"

text \<open>
  One turn of the loop of \<^verbatim>\<open>healthCheck\<close>, on the entry \<open>(i, p)\<close>, with the flag
  \<^verbatim>\<open>changed\<close> beside the state. \<open>exitCode c\<close> is \<^verbatim>\<open>process.exitCode\<close> of the child
  \<open>c\<close> (\<open>None\<close> for \<^verbatim>\<open>null\<close>), \<open>portOpen i\<close> what \<^verbatim>\<open>isPortOpenNow\<close> answers when
  asked for the entry \<open>i\<close>, \<open>now\<close> the clock read once before the loop.
\<close>

definition healthStep ::
  "(nat \<Rightarrow> nat option) \<Rightarrow> (string \<Rightarrow> bool) \<Rightarrow> int \<Rightarrow> string \<times> RunningProc
     \<Rightarrow> bool \<times> Manager \<Rightarrow> bool \<times> Manager" where
  "healthStep exitCode portOpen now ip cs =
     (case ip of (i, p) \<Rightarrow> case cs of (changed, s) \<Rightarrow>
        (case exitCode (process p) of
           Some code \<Rightarrow>
             (True,
              s\<lparr>outputLog := outputLog s
                    @ [''Health: '' @ i @ '' process exited (code='' @ numToString code @ '').''],
                processes := AList.delete i (processes s),
                portFailureCounts := AList.delete i (portFailureCounts s)\<rparr>)
         | None \<Rightarrow>
             if now - startedAt p < healthGraceMs then (changed, s)
             else
               (let s1 = s\<lparr>probes := probes s @ [(localPort p, 1200)]\<rparr>
                in if portOpen i
                   then (changed,
                         s1\<lparr>portFailureCounts := AList.delete i (portFailureCounts s1)\<rparr>)
                   else
                     (let failures = failuresOf s1 i + 1;
                          s2 = s1\<lparr>outputLog := outputLog s1
                                   @ [''Health: '' @ i @ '' port '' @ numToString (localPort p)
                                        @ '' closed ('' @ numToString failures @ ''/3).''],
                                 portFailureCounts :=
                                   AList.update i failures (portFailureCounts s1)\<rparr>
                      in if failures \<ge> 3
                         then (True,
                               s2\<lparr>killed := killed s2 @ [process p],
                                  processes := AList.delete i (processes s2),
                                  portFailureCounts := AList.delete i (portFailureCounts s2),
                                  outputLog := outputLog s2
                                    @ [''Health: '' @ i @ '' removed after ''
                                         @ numToString failures @ '' failures.'']\<rparr>)
                         else (changed, s2)))))"

text \<open>
  \<^verbatim>\<open>healthCheck\<close> iterates over the live \<^verbatim>\<open>Map\<close>; a turn deletes at most the entry it is
  on, which leaves the entries still to come in place, so the loop visits the entries the
  registry had at the start, in order. It fires once, after the loop, if a turn removed an
  entry.
\<close>

definition healthCheck ::
  "(nat \<Rightarrow> nat option) \<Rightarrow> (string \<Rightarrow> bool) \<Rightarrow> int \<Rightarrow> Manager \<Rightarrow> Manager" where
  "healthCheck exitCode portOpen now s =
     (case fold (healthStep exitCode portOpen now) (processes s) (False, s) of
        (changed, s1) \<Rightarrow> if changed then s1\<lparr>fired := fired s1 + 1\<rparr> else s1)"

subsection \<open>Static validation\<close>

text \<open>
  The local \<^verbatim>\<open>add\<close> of \<^verbatim>\<open>validateConfigDuplicates\<close>, on the \<^verbatim>\<open>Map\<close> \<open>seen\<close> from a
  port to the labels that use it.
\<close>

definition add :: "nat \<Rightarrow> string \<Rightarrow> (nat \<times> string list) list \<Rightarrow> (nat \<times> string list) list" where
  "add port label seen =
     (let list = (case map_of seen port of None \<Rightarrow> [] | Some l \<Rightarrow> l)
      in AList.update port (list @ [label]) seen)"

definition seenOf :: "EnvironmentConfig \<Rightarrow> (nat \<times> string list) list" where
  "seenOf env =
     fold (\<lambda>f. add (f_localPort f) (''k8s:'' @ f_id f)) (e_k8sForwards env)
       (fold (\<lambda>t. add (t_localPort t) (''ssh:'' @ t_id t)) (e_sshTunnels env) [])"

definition diagnostic :: "EnvironmentConfig \<Rightarrow> nat \<Rightarrow> string list \<Rightarrow> string" where
  "diagnostic env port labels =
     ''Env '' @ e_name env @ '': localPort '' @ numToString port @ '' used by ''
       @ join '', '' labels"

definition validateEnv :: "EnvironmentConfig \<Rightarrow> string list" where
  "validateEnv env =
     map (\<lambda>(port, labels). diagnostic env port labels)
       (filter (\<lambda>(port, labels). length labels > 1) (seenOf env))"

definition validateConfigDuplicates :: "Manager \<Rightarrow> string list" where
  "validateConfigDuplicates s = concat (map validateEnv (envs s))"

subsection \<open>The duplicates, as the specification words them\<close>

text \<open>
  The specification of \<^verbatim>\<open>validateConfigDuplicates\<close>, to compare with the loop above: the
  forward definitions of an environment, each with its local port and its identifier
  (\<^verbatim>\<open>ssh:<id>\<close>, \<^verbatim>\<open>k8s:<id>\<close>), tunnels first; the identifiers that use a port; the ports
  used by more than one definition, each once, in the order of first use; and one
  diagnostic for each of them, listing the identifiers that collide.
\<close>

definition forwardDefs :: "EnvironmentConfig \<Rightarrow> (nat \<times> string) list" where
  "forwardDefs env =
     map (\<lambda>t. (t_localPort t, ''ssh:'' @ t_id t)) (e_sshTunnels env)
     @ map (\<lambda>f. (f_localPort f, ''k8s:'' @ f_id f)) (e_k8sForwards env)"

definition usersOf :: "(nat \<times> string) list \<Rightarrow> nat \<Rightarrow> string list" where
  "usersOf ds port = map snd (filter (\<lambda>d. fst d = port) ds)"

definition duplicatePorts :: "EnvironmentConfig \<Rightarrow> nat list" where
  "duplicatePorts env =
     filter (\<lambda>port. 1 < length (usersOf (forwardDefs env) port))
       (uniq (map fst (forwardDefs env)))"

definition validateEnv_spec :: "EnvironmentConfig \<Rightarrow> string list" where
  "validateEnv_spec env =
     map (\<lambda>port. diagnostic env port (usersOf (forwardDefs env) port)) (duplicatePorts env)"

subsection \<open>What a key resolves to\<close>

text \<open>
  The two lookups with which \<^verbatim>\<open>start\<close> resolves a key (\<^verbatim>\<open>envs.find\<close>, then
  \<^verbatim>\<open>sshTunnels.find\<close> or \<^verbatim>\<open>k8sForwards.find\<close>), as functions of the configuration: the
  local port of the definition found, and the command with its arguments that is launched
  for it. They serve to state properties of \<^verbatim>\<open>start\<close>.
\<close>

definition definedPort :: "EnvironmentConfig list \<Rightarrow> ForwardKey \<Rightarrow> nat option" where
  "definedPort es k =
     (case find (\<lambda>e. e_id e = envId k) es of
        None \<Rightarrow> None
      | Some env \<Rightarrow>
          if kind k = Ssh
          then map_option t_localPort (find (\<lambda>t. t_id t = key_id k) (e_sshTunnels env))
          else map_option f_localPort (find (\<lambda>f. f_id f = key_id k) (e_k8sForwards env)))"

definition launchOf ::
  "EnvironmentConfig list \<Rightarrow> ForwardKey \<Rightarrow> (string \<times> string list) option" where
  "launchOf es k =
     (case find (\<lambda>e. e_id e = envId k) es of
        None \<Rightarrow> None
      | Some env \<Rightarrow>
          if kind k = Ssh
          then map_option (\<lambda>t. (''ssh'', sshArgs t))
                 (find (\<lambda>t. t_id t = key_id k) (e_sshTunnels env))
          else map_option (\<lambda>f. (''kubectl'', kubectlArgs env f))
                 (find (\<lambda>f. f_id f = key_id k) (e_k8sForwards env)))"

subsection \<open>An example configuration\<close>

text \<open>
  The sample of config.ts (\<^verbatim>\<open>sampleConfig\<close>) under the environment id \<^verbatim>\<open>stg\<close>, with
  a second tunnel and a second environment on the same local port, and one key file.
\<close>

definition dbTunnel :: SshTunnel where
  "dbTunnel = \<lparr>t_id = ''db'', t_title = ''database:3316'', t_localPort = 3316,
     t_remoteHost = ''1.2.3.4'', t_remotePort = 3306, t_sshHost = ''stg''\<rparr>"

definition replicaTunnel :: SshTunnel where
  "replicaTunnel = \<lparr>t_id = ''replica'', t_title = ''replica:3316'', t_localPort = 3316,
     t_remoteHost = ''1.2.3.5'', t_remotePort = 3306, t_sshHost = ''stg''\<rparr>"

definition svcForward :: K8sForward where
  "svcForward = \<lparr>f_id = ''svc'', f_title = ''service:18001'', f_namespace = ''ns'',
     f_serviceName = ''svc'', f_localPort = 18001, f_remotePort = 8001\<rparr>"

definition stgEnv :: EnvironmentConfig where
  "stgEnv = \<lparr>e_id = ''stg'', e_name = ''Staging'',
     e_kubectlContext = Some ''your-kube-context'',
     e_sshTunnels = [dbTunnel, replicaTunnel], e_k8sForwards = [svcForward],
     e_sshAddKeys = [''~/.ssh/id_stg'']\<rparr>"

definition dbKey :: ForwardKey where
  "dbKey = \<lparr>envId = ''stg'', kind = Ssh, key_id = ''db''\<rparr>"

definition replicaKey :: ForwardKey where
  "replicaKey = \<lparr>envId = ''stg'', kind = Ssh, key_id = ''replica''\<rparr>"

definition svcKey :: ForwardKey where
  "svcKey = \<lparr>envId = ''stg'', kind = K8s, key_id = ''svc''\<rparr>"

text \<open>A host whose home is \<^verbatim>\<open>/home/dev\<close> and that has every file asked for.\<close>

definition devHost :: Host where
  "devHost = \<lparr>homeJoin = (\<lambda>rest. ''/home/dev'' @ rest), existsSync = (\<lambda>file. True)\<rparr>"

text \<open>A key of the environment \<^verbatim>\<open>stg\<close> that no tunnel is defined for, and a key of no environment.\<close>

definition ghostKey :: ForwardKey where
  "ghostKey = \<lparr>envId = ''stg'', kind = Ssh, key_id = ''nope''\<rparr>"

definition strayKey :: ForwardKey where
  "strayKey = \<lparr>envId = ''prod'', kind = K8s, key_id = ''svc''\<rparr>"

text \<open>
  The manager after \<^verbatim>\<open>db\<close> has been started at time 0 from the fresh state, and the
  entry it then holds for \<^verbatim>\<open>db\<close>.
\<close>

definition dbProc :: RunningProc where
  "dbProc = \<lparr>key = dbKey, process = 1, command = ''ssh'',
     args = [''-v'', ''-o'', ''ExitOnForwardFailure=yes'', ''-o'', ''ServerAliveInterval=60'',
             ''-o'', ''ServerAliveCountMax=3'', ''-o'', ''ControlMaster=no'',
             ''-o'', ''ControlPersist=no'', ''-o'', ''StrictHostKeyChecking=no'',
             ''-NL'', ''3316:1.2.3.4:3306'', ''stg''],
     localPort = 3316, startedAt = 0\<rparr>"

definition dbRunning :: Manager where
  "dbRunning = snd (start devHost 0 True dbKey (newManager [stgEnv]))"

text \<open>
  Sweeps over that manager in which no child has exited and no port answers, 30, 33 and
  36 seconds after the start.
\<close>

definition noExit :: "nat \<Rightarrow> nat option" where
  "noExit c = None"

definition allClosed :: "string \<Rightarrow> bool" where
  "allClosed i = False"

definition dbFailed1 :: Manager where
  "dbFailed1 = healthCheck noExit allClosed 30000 dbRunning"

definition dbFailed2 :: Manager where
  "dbFailed2 = healthCheck noExit allClosed 33000 dbFailed1"

definition dbFailed3 :: Manager where
  "dbFailed3 = healthCheck noExit allClosed 36000 dbFailed2"

text \<open>
  The manager after two failed sweeps, with \<^verbatim>\<open>db\<close> then stopped, and with \<^verbatim>\<open>db\<close> started
  again 40 seconds after the first start.
\<close>

definition dbStopped :: Manager where
  "dbStopped = stop dbKey dbFailed2"

definition dbRestarted :: Manager where
  "dbRestarted = snd (start devHost 40000 True dbKey dbStopped)"

text \<open>An environment with two SSH tunnels that both declare the local port 3306.\<close>

definition mysqlEnv :: EnvironmentConfig where
  "mysqlEnv = \<lparr>e_id = ''dev'', e_name = ''Dev'', e_kubectlContext = None,
     e_sshTunnels = [dbTunnel\<lparr>t_id := ''primary'', t_localPort := 3306\<rparr>,
                     replicaTunnel\<lparr>t_localPort := 3306\<rparr>],
     e_k8sForwards = [], e_sshAddKeys = []\<rparr>"

section \<open>Properties\<close>

subsection \<open>The registry index\<close>

lemma split_at_first:
  assumes "c \<notin> set xs" "c \<notin> set ys" "xs @ c # us = ys @ c # vs"
  shows "xs = ys \<and> us = vs"
  using assms
proof (induction xs arbitrary: ys)
  case Nil
  then show ?case by (cases ys) auto
next
  case (Cons x xs)
  then show ?case by (cases ys) auto
qed

lemma split_at_last:
  assumes "c \<notin> set us" "c \<notin> set vs" "xs @ c # us = ys @ c # vs"
  shows "xs = ys \<and> us = vs"
proof -
  from assms(3) have "rev (xs @ c # us) = rev (ys @ c # vs)" by simp
  then have "rev us @ c # rev xs = rev vs @ c # rev ys" by simp
  with split_at_first [of c "rev us" "rev vs" "rev xs" "rev ys"] assms(1,2)
  show ?thesis by simp
qed

lemma kindStr_tail:
  assumes "kindStr a @ CHR '':'' # us = kindStr b @ CHR '':'' # vs"
  shows "a = b \<and> us = vs"
  using assms by (cases a; cases b) simp_all

lemma kindStr_head:
  assumes "xs @ CHR '':'' # kindStr a = ys @ CHR '':'' # kindStr b"
  shows "a = b \<and> xs = ys"
proof -
  have "CHR '':'' \<notin> set (kindStr a)" "CHR '':'' \<notin> set (kindStr b)"
    by (cases a, simp_all) (cases b, simp_all)
  from split_at_last [OF this assms] show ?thesis by (cases a; cases b) simp_all
qed

lemma keyToId_inj_envId:
  assumes "CHR '':'' \<notin> set (envId k1)" "CHR '':'' \<notin> set (envId k2)"
    and "keyToId k1 = keyToId k2"
  shows "k1 = k2"
proof -
  from assms(3)
  have "envId k1 @ CHR '':'' # (kindStr (kind k1) @ CHR '':'' # key_id k1)
      = envId k2 @ CHR '':'' # (kindStr (kind k2) @ CHR '':'' # key_id k2)"
    by (simp add: keyToId_def)
  from split_at_first [OF assms(1,2) this]
  have e: "envId k1 = envId k2"
    and r: "kindStr (kind k1) @ CHR '':'' # key_id k1 = kindStr (kind k2) @ CHR '':'' # key_id k2"
    by simp_all
  from kindStr_tail [OF r] have "kind k1 = kind k2" "key_id k1 = key_id k2" by simp_all
  with e show ?thesis by simp
qed

lemma keyToId_inj_key_id:
  assumes "CHR '':'' \<notin> set (key_id k1)" "CHR '':'' \<notin> set (key_id k2)"
    and "keyToId k1 = keyToId k2"
  shows "k1 = k2"
proof -
  from assms(3)
  have "(envId k1 @ CHR '':'' # kindStr (kind k1)) @ CHR '':'' # key_id k1
      = (envId k2 @ CHR '':'' # kindStr (kind k2)) @ CHR '':'' # key_id k2"
    by (simp add: keyToId_def)
  from split_at_last [OF assms(1,2) this]
  have i: "key_id k1 = key_id k2"
    and r: "envId k1 @ CHR '':'' # kindStr (kind k1) = envId k2 @ CHR '':'' # kindStr (kind k2)"
    by simp_all
  from kindStr_head [OF r] have "kind k1 = kind k2" "envId k1 = envId k2" by simp_all
  with i show ?thesis by simp
qed

text \<open>
  C7, as stated, fails: \<^verbatim>\<open>keyToId\<close> joins the three fields with colons and escapes
  nothing, so the keys \<open>(a:ssh, ssh, b)\<close> and \<open>(a, ssh, ssh:b)\<close>, which differ in
  \<open>envId\<close> and in \<open>id\<close>, have the one string form \<^verbatim>\<open>a:ssh:ssh:b\<close>.
\<close>

theorem keyToId_not_injective:
  "keyToId \<lparr>envId = ''a:ssh'', kind = Ssh, key_id = ''b''\<rparr>
     = keyToId \<lparr>envId = ''a'', kind = Ssh, key_id = ''ssh:b''\<rparr>
   \<and> \<lparr>envId = ''a:ssh'', kind = Ssh, key_id = ''b''\<rparr>
     \<noteq> \<lparr>envId = ''a'', kind = Ssh, key_id = ''ssh:b''\<rparr>"
  by (simp add: keyToId_def)

text \<open>
  C7, amended: over the keys whose \<open>envId\<close> holds no colon, and likewise over the keys
  whose \<open>id\<close> holds no colon, the string form \<^verbatim>\<open>envId:kind:id\<close> is injective: two such
  keys with the same string form agree in all three fields.
\<close>

theorem keyToId_injective_without_colon:
  assumes "(CHR '':'' \<notin> set (envId k1) \<and> CHR '':'' \<notin> set (envId k2))
         \<or> (CHR '':'' \<notin> set (key_id k1) \<and> CHR '':'' \<notin> set (key_id k2))"
    and "keyToId k1 = keyToId k2"
  shows "envId k1 = envId k2 \<and> kind k1 = kind k2 \<and> key_id k1 = key_id k2"
proof -
  from assms have "k1 = k2"
    using keyToId_inj_envId keyToId_inj_key_id by blast
  then show ?thesis by simp
qed

theorem keyToId_injective_without_colon_witness:
  "CHR '':'' \<notin> set (envId dbKey)
   \<and> CHR '':'' \<notin> set (envId (svcKey\<lparr>kind := Ssh, key_id := ''db''\<rparr>))
   \<and> keyToId dbKey = keyToId (svcKey\<lparr>kind := Ssh, key_id := ''db''\<rparr>)
   \<and> envId dbKey = envId (svcKey\<lparr>kind := Ssh, key_id := ''db''\<rparr>)
   \<and> kind dbKey = kind (svcKey\<lparr>kind := Ssh, key_id := ''db''\<rparr>)
   \<and> key_id dbKey = key_id (svcKey\<lparr>kind := Ssh, key_id := ''db''\<rparr>)"
  using keyToId_injective_without_colon [of dbKey "svcKey\<lparr>kind := Ssh, key_id := ''db''\<rparr>"]
  by (simp add: dbKey_def svcKey_def keyToId_def)

subsection \<open>Starting a forward\<close>

lemma fold_sshAddStep_fields:
  "envs (fold (sshAddStep h) fs s) = envs s"
  "processes (fold (sshAddStep h) fs s) = processes s"
  "portFailureCounts (fold (sshAddStep h) fs s) = portFailureCounts s"
  "fired (fold (sshAddStep h) fs s) = fired s"
  "killed (fold (sshAddStep h) fs s) = killed s"
  "probes (fold (sshAddStep h) fs s) = probes s"
  by (induction fs arbitrary: s; simp add: sshAddStep_def)+

lemma fold_sshAddStep_spawned:
  "spawned (fold (sshAddStep h) fs s)
     = spawned s @ map (\<lambda>file. (''ssh-add'', [''-q'', file])) (filter (existsSync h) fs)"
  by (induction fs arbitrary: s) (simp_all add: sshAddStep_def)

lemma addSshKeys_fields [simp]:
  "envs (addSshKeysIfPresent h env s) = envs s"
  "processes (addSshKeysIfPresent h env s) = processes s"
  "portFailureCounts (addSshKeysIfPresent h env s) = portFailureCounts s"
  "fired (addSshKeysIfPresent h env s) = fired s"
  "killed (addSshKeysIfPresent h env s) = killed s"
  "probes (addSshKeysIfPresent h env s) = probes s"
  by (simp_all add: addSshKeysIfPresent_def Let_def fold_sshAddStep_fields)

lemma addSshKeys_spawned:
  "spawned (addSshKeysIfPresent h env s)
     = spawned s @ map (\<lambda>file. (''ssh-add'', [''-q'', file]))
         (filter (existsSync h) (uniq (map (expand h) (e_sshAddKeys env))))"
  by (simp add: addSshKeysIfPresent_def Let_def fold_sshAddStep_spawned)

lemma addSshKeys_findByPort [simp]:
  "findByPort (addSshKeysIfPresent h env s) port = findByPort s port"
  by (simp add: findByPort_def)

lemma addSshKeys_isRunning [simp]:
  "isRunning (addSshKeysIfPresent h env s) k = isRunning s k"
  by (simp add: isRunning_def)

lemma portCheck_free:
  "findByPort s port = None \<Longrightarrow> portCheck ok port s = (None, s)"
  by (simp add: portCheck_def)

lemma portCheck_live:
  "findByPort s port = Some holder \<Longrightarrow>
   portCheck True port s
     = (Some (Error (''Port '' @ numToString port @ '' is already used by another forward'')),
        s\<lparr>probes := probes s @ [(port, 300)]\<rparr>)"
  by (simp add: portCheck_def pruneDeadByPort_def findByPort_def)

lemma portCheck_stale:
  "findByPort s port = Some holder \<Longrightarrow>
   portCheck False port s
     = (None, s\<lparr>probes := probes s @ [(port, 300)],
                 killed := killed s @ [process holder],
                 processes := filter (\<lambda>(i, p). localPort p \<noteq> port) (processes s),
                 fired := fired s + 1\<rparr>)"
  by (auto simp: portCheck_def pruneDeadByPort_def findByPort_def find_None_iff)

lemma portCheck_envs: "envs (snd (portCheck ok port s)) = envs s"
  by (simp add: portCheck_def pruneDeadByPort_def Let_def split: option.splits)

lemma update_fresh: "k \<notin> fst ` set al \<Longrightarrow> AList.update k v al = al @ [(k, v)]"
  by (induction al) auto

lemma update_self_mem: "(k, v) \<in> set (AList.update k v al)"
  by (induction al) auto

lemma count_distinct_key:
  "distinct (map fst al) \<Longrightarrow> map_of al k \<noteq> None \<Longrightarrow>
   length (filter (\<lambda>(i, p). i = k) al) = 1"
proof (induction al)
  case Nil
  then show ?case by simp
next
  case (Cons a al)
  obtain i p where a: "a = (i, p)" by (cases a)
  show ?case
  proof (cases "i = k")
    case True
    with Cons.prems a have "k \<notin> fst ` set al" by auto
    then have "filter (\<lambda>(i, p). i = k) al = []"
      by (force simp: filter_empty_conv)
    with True a show ?thesis by simp
  next
    case False
    with Cons a show ?thesis by simp
  qed
qed

lemma spawnAndTrack_isRunning: "isRunning (spawnAndTrack now k cmd as port s) k"
  by (simp add: spawnAndTrack_def isRunning_def Let_def AList.update_conv')

lemma findByPort_spawnAndTrack:
  "findByPort (spawnAndTrack now k cmd as port s) port \<noteq> None"
proof -
  let ?e = "\<lparr>key = k, process = length (spawned s), command = cmd, args = as,
             localPort = port, startedAt = now\<rparr>"
  have "(keyToId k, ?e) \<in> set (processes (spawnAndTrack now k cmd as port s))"
    by (simp add: spawnAndTrack_def Let_def update_self_mem)
  then have "?e \<in> set (map snd (processes (spawnAndTrack now k cmd as port s)))"
    by force
  then show ?thesis
    unfolding findByPort_def find_None_iff by force
qed

text \<open>A start is a no-op only on a key that is registered, and a start that returns leaves
  the key registered.\<close>

lemma start_registers:
  "fst (start h now ok k s) = None \<Longrightarrow> isRunning (snd (start h now ok k s)) k"
  by (auto simp: start_def Let_def spawnAndTrack_isRunning
      split: option.splits prod.splits if_splits)

text \<open>For a key that resolves, \<^verbatim>\<open>start\<close> is the port check followed by the launch.\<close>

lemma start_resolved:
  assumes "\<not> isRunning s k" and "definedPort (envs s) k = Some port"
  shows "\<exists>env cmd as. find (\<lambda>e. e_id e = envId k) (envs s) = Some env
           \<and> launchOf (envs s) k = Some (cmd, as)
           \<and> start h now ok k s =
               (case portCheck ok port (addSshKeysIfPresent h env s) of
                  (Some e, s2) \<Rightarrow> (Some e, s2)
                | (None, s2) \<Rightarrow> (None, spawnAndTrack now k cmd as port s2))"
  using assms
  by (auto simp: start_def definedPort_def launchOf_def Let_def split: option.splits if_splits)

lemma start_launched:
  assumes "\<not> isRunning s k" and "definedPort (envs s) k = Some port"
    and "start h now ok k s = (None, s1)"
  shows "envs s1 = envs s \<and> isRunning s1 k \<and> findByPort s1 port \<noteq> None"
proof -
  from start_resolved [OF assms(1,2), of h now ok]
  obtain env cmd as where
    st: "start h now ok k s =
       (case portCheck ok port (addSshKeysIfPresent h env s) of
          (Some e, s2) \<Rightarrow> (Some e, s2)
        | (None, s2) \<Rightarrow> (None, spawnAndTrack now k cmd as port s2))"
    by auto
  obtain r s2 where pc0: "portCheck ok port (addSshKeysIfPresent h env s) = (r, s2)"
    by (cases "portCheck ok port (addSshKeysIfPresent h env s)")
  with st assms(3) have pc: "portCheck ok port (addSshKeysIfPresent h env s) = (None, s2)"
    and s1: "s1 = spawnAndTrack now k cmd as port s2"
    by (cases r; simp)+
  from portCheck_envs [of ok port "addSshKeysIfPresent h env s"] pc
  have "envs s2 = envs s" by simp
  with s1 show ?thesis
    by (simp add: findByPort_spawnAndTrack spawnAndTrack_isRunning)
       (simp add: spawnAndTrack_def Let_def)
qed

text \<open>The example runs, evaluated.\<close>

lemmas example_defs = dbKey_def replicaKey_def svcKey_def ghostKey_def strayKey_def
  stgEnv_def dbTunnel_def replicaTunnel_def svcForward_def devHost_def newManager_def
  dbProc_def

lemmas start_defs = start_def isRunning_def keyToId_def addSshKeysIfPresent_def
  sshAddStep_def expand_def portCheck_def findByPort_def pruneDeadByPort_def
  spawnAndTrack_def sshArgs_def kubectlArgs_def numToString.simps digitChar_def Let_def

lemma start_db:
  "start devHost 0 True dbKey (newManager [stgEnv]) =
    (None,
     \<lparr>envs = [stgEnv],
      processes = [(''stg:ssh:db'', dbProc)],
      portFailureCounts = [],
      outputLog =
        [''ssh-add attempted for /home/dev/.ssh/id_stg'',
         ''Started: ssh -v -o ExitOnForwardFailure=yes -o ServerAliveInterval=60 -o ServerAliveCountMax=3 -o ControlMaster=no -o ControlPersist=no -o StrictHostKeyChecking=no -NL 3316:1.2.3.4:3306 stg''],
      fired = 1,
      spawned = [(''ssh-add'', [''-q'', ''/home/dev/.ssh/id_stg'']), (''ssh'', args dbProc)],
      killed = [], probes = []\<rparr>)"
  by (simp add: example_defs start_defs)

lemma dbRunning_fields:
  "envs dbRunning = [stgEnv]"
  "processes dbRunning = [(''stg:ssh:db'', dbProc)]"
  "portFailureCounts dbRunning = []"
  "fired dbRunning = 1"
  "spawned dbRunning = [(''ssh-add'', [''-q'', ''/home/dev/.ssh/id_stg'']), (''ssh'', args dbProc)]"
  "killed dbRunning = []"
  "probes dbRunning = []"
  by (simp_all add: dbRunning_def start_db)

lemma start_db_again: "start devHost 5 True dbKey dbRunning = (None, dbRunning)"
  by (simp add: start_def isRunning_def dbRunning_fields keyToId_def dbKey_def)

lemma definedPort_examples:
  "definedPort [stgEnv] dbKey = Some 3316"
  "definedPort [stgEnv] replicaKey = Some 3316"
  "definedPort [stgEnv] svcKey = Some 18001"
  "definedPort [stgEnv] ghostKey = None"
  "definedPort [stgEnv] strayKey = None"
  by (simp_all add: definedPort_def example_defs)

lemma start_replica_stale:
  "fst (start devHost 5 False replicaKey dbRunning) = None"
  "processes (snd (start devHost 5 False replicaKey dbRunning))
     = [(''stg:ssh:replica'',
         \<lparr>key = replicaKey, process = 3, command = ''ssh'',
          args = [''-v'', ''-o'', ''ExitOnForwardFailure=yes'', ''-o'', ''ServerAliveInterval=60'',
                  ''-o'', ''ServerAliveCountMax=3'', ''-o'', ''ControlMaster=no'',
                  ''-o'', ''ControlPersist=no'', ''-o'', ''StrictHostKeyChecking=no'',
                  ''-NL'', ''3316:1.2.3.5:3306'', ''stg''],
          localPort = 3316, startedAt = 5\<rparr>)]"
  "killed (snd (start devHost 5 False replicaKey dbRunning)) = [1]"
  "fired (snd (start devHost 5 False replicaKey dbRunning)) = 3"
  "probes (snd (start devHost 5 False replicaKey dbRunning)) = [(3316, 300)]"
  by (simp_all add: dbRunning_def start_db) (simp_all add: example_defs start_defs)

lemma start_replica_live:
  "fst (start devHost 5 True replicaKey dbRunning)
     = Some (Error ''Port 3316 is already used by another forward'')"
  "processes (snd (start devHost 5 True replicaKey dbRunning)) = [(''stg:ssh:db'', dbProc)]"
  "killed (snd (start devHost 5 True replicaKey dbRunning)) = []"
  "fired (snd (start devHost 5 True replicaKey dbRunning)) = 1"
  "spawned (snd (start devHost 5 True replicaKey dbRunning))
     = [(''ssh-add'', [''-q'', ''/home/dev/.ssh/id_stg'']), (''ssh'', args dbProc),
        (''ssh-add'', [''-q'', ''/home/dev/.ssh/id_stg''])]"
  "probes (snd (start devHost 5 True replicaKey dbRunning)) = [(3316, 300)]"
  by (simp_all add: dbRunning_def start_db) (simp_all add: example_defs start_defs)

text \<open>
  C2: \<^verbatim>\<open>start(k)\<close> is idempotent. For every key \<open>k\<close> already present in the registry,
  \<^verbatim>\<open>start(k)\<close> returns without error and leaves the whole state as it was, so it spawns no
  process, and the registry (a \<^verbatim>\<open>Map\<close>, whose indices are distinct) holds exactly one
  entry for \<open>k\<close>.
\<close>

theorem start_idempotent:
  assumes "distinct (map fst (processes s))" and "isRunning s k"
  shows "fst (start h now ok k s) = None
       \<and> snd (start h now ok k s) = s
       \<and> spawned (snd (start h now ok k s)) = spawned s
       \<and> length (filter (\<lambda>(i, p). i = keyToId k) (processes (snd (start h now ok k s)))) = 1"
proof -
  from assms(2) have "start h now ok k s = (None, s)" by (simp add: start_def)
  moreover from assms have "length (filter (\<lambda>(i, p). i = keyToId k) (processes s)) = 1"
    by (simp add: count_distinct_key isRunning_def)
  ultimately show ?thesis by simp
qed

theorem start_idempotent_witness:
  "distinct (map fst (processes dbRunning)) \<and> isRunning dbRunning dbKey
   \<and> fst (start devHost 5 True dbKey dbRunning) = None
   \<and> snd (start devHost 5 True dbKey dbRunning) = dbRunning
   \<and> spawned (snd (start devHost 5 True dbKey dbRunning)) = spawned dbRunning
   \<and> length (filter (\<lambda>(i, p). i = keyToId dbKey)
        (processes (snd (start devHost 5 True dbKey dbRunning)))) = 1"
  using start_idempotent [of dbRunning dbKey devHost 5 True]
  by (simp add: dbRunning_fields isRunning_def keyToId_def dbKey_def)

text \<open>
  C3: every start of an SSH-kind key that launches spawns, after the \<^verbatim>\<open>ssh-add\<close> calls for
  the environment's key files, exactly one process: \<^verbatim>\<open>ssh\<close> with the arguments
  \<^verbatim>\<open>-v -o ExitOnForwardFailure=yes -o ServerAliveInterval=60 -o ServerAliveCountMax=3
  -o ControlMaster=no -o ControlPersist=no -o StrictHostKeyChecking=no
  -NL <localPort>:<remoteHost>:<remotePort> <sshHost>\<close>, in that order, taken from the
  tunnel definition the key resolves to; the registry entry records the same command and
  arguments.
\<close>

theorem start_ssh_command:
  assumes "kind k = Ssh" and "\<not> isRunning s k" and "start h now ok k s = (None, s')"
  shows "\<exists>env item p.
           find (\<lambda>e. e_id e = envId k) (envs s) = Some env
         \<and> find (\<lambda>t. t_id t = key_id k) (e_sshTunnels env) = Some item
         \<and> spawned s' = spawned (addSshKeysIfPresent h env s) @
             [(''ssh'',
               [''-v'', ''-o'', ''ExitOnForwardFailure=yes'', ''-o'', ''ServerAliveInterval=60'',
                ''-o'', ''ServerAliveCountMax=3'', ''-o'', ''ControlMaster=no'',
                ''-o'', ''ControlPersist=no'', ''-o'', ''StrictHostKeyChecking=no'',
                ''-NL'', numToString (t_localPort item) @ '':'' @ t_remoteHost item @ '':''
                           @ numToString (t_remotePort item),
                t_sshHost item])]
         \<and> map_of (processes s') (keyToId k) = Some p
         \<and> command p = ''ssh''
         \<and> args p =
               [''-v'', ''-o'', ''ExitOnForwardFailure=yes'', ''-o'', ''ServerAliveInterval=60'',
                ''-o'', ''ServerAliveCountMax=3'', ''-o'', ''ControlMaster=no'',
                ''-o'', ''ControlPersist=no'', ''-o'', ''StrictHostKeyChecking=no'',
                ''-NL'', numToString (t_localPort item) @ '':'' @ t_remoteHost item @ '':''
                           @ numToString (t_remotePort item),
                t_sshHost item]"
proof -
  from assms obtain env where env: "find (\<lambda>e. e_id e = envId k) (envs s) = Some env"
    by (auto simp: start_def split: option.splits)
  from assms env obtain item
    where item: "find (\<lambda>t. t_id t = key_id k) (e_sshTunnels env) = Some item"
    by (auto simp: start_def Let_def split: option.splits)
  let ?s1 = "addSshKeysIfPresent h env s"
  from assms env item obtain s2
    where pc: "portCheck ok (t_localPort item) ?s1 = (None, s2)"
      and s': "s' = spawnAndTrack now k ''ssh'' (sshArgs item) (t_localPort item) s2"
    by (auto simp: start_def Let_def split: option.splits prod.splits)
  from pc have sp: "spawned s2 = spawned ?s1"
    by (auto simp: portCheck_def pruneDeadByPort_def Let_def split: if_splits option.splits)
  from s' sp have "spawned s' = spawned ?s1 @ [(''ssh'', sshArgs item)]"
    by (simp add: spawnAndTrack_def Let_def)
  moreover from s' have "\<exists>p. map_of (processes s') (keyToId k) = Some p \<and> command p = ''ssh''
      \<and> args p = sshArgs item"
    by (simp add: spawnAndTrack_def Let_def AList.update_conv')
  ultimately show ?thesis using env item by (auto simp: sshArgs_def)
qed

theorem start_ssh_command_witness:
  "kind dbKey = Ssh \<and> \<not> isRunning (newManager [stgEnv]) dbKey
   \<and> start devHost 0 True dbKey (newManager [stgEnv]) = (None, dbRunning)
   \<and> last (spawned dbRunning) =
       (''ssh'',
        [''-v'', ''-o'', ''ExitOnForwardFailure=yes'', ''-o'', ''ServerAliveInterval=60'',
         ''-o'', ''ServerAliveCountMax=3'', ''-o'', ''ControlMaster=no'',
         ''-o'', ''ControlPersist=no'', ''-o'', ''StrictHostKeyChecking=no'',
         ''-NL'', ''3316:1.2.3.4:3306'', ''stg''])"
proof -
  have h1: "kind dbKey = Ssh" by (simp add: dbKey_def)
  have h2: "\<not> isRunning (newManager [stgEnv]) dbKey" by (simp add: isRunning_def newManager_def)
  have h3: "start devHost 0 True dbKey (newManager [stgEnv]) = (None, dbRunning)"
    by (simp add: dbRunning_def start_db)
  from start_ssh_command [OF h1 h2 h3] obtain env item where
    env: "find (\<lambda>e. e_id e = envId dbKey) (envs (newManager [stgEnv])) = Some env" and
    item: "find (\<lambda>t. t_id t = key_id dbKey) (e_sshTunnels env) = Some item" and
    sp: "spawned dbRunning = spawned (addSshKeysIfPresent devHost env (newManager [stgEnv])) @
       [(''ssh'',
         [''-v'', ''-o'', ''ExitOnForwardFailure=yes'', ''-o'', ''ServerAliveInterval=60'',
          ''-o'', ''ServerAliveCountMax=3'', ''-o'', ''ControlMaster=no'',
          ''-o'', ''ControlPersist=no'', ''-o'', ''StrictHostKeyChecking=no'',
          ''-NL'', numToString (t_localPort item) @ '':'' @ t_remoteHost item @ '':''
                     @ numToString (t_remotePort item),
          t_sshHost item])]"
    by blast
  from env have "env = stgEnv" by (simp add: newManager_def stgEnv_def dbKey_def)
  with item have "item = dbTunnel"
    by (simp add: stgEnv_def dbKey_def dbTunnel_def)
  with sp have "last (spawned dbRunning) =
       (''ssh'',
        [''-v'', ''-o'', ''ExitOnForwardFailure=yes'', ''-o'', ''ServerAliveInterval=60'',
         ''-o'', ''ServerAliveCountMax=3'', ''-o'', ''ControlMaster=no'',
         ''-o'', ''ControlPersist=no'', ''-o'', ''StrictHostKeyChecking=no'',
         ''-NL'', ''3316:1.2.3.4:3306'', ''stg''])"
    by (simp add: dbTunnel_def numToString.simps digitChar_def)
  with h1 h2 h3 show ?thesis by simp
qed

lemma keyToId_examples:
  "keyToId dbKey = ''stg:ssh:db''"
  "keyToId replicaKey = ''stg:ssh:replica''"
  "keyToId svcKey = ''stg:k8s:svc''"
  by (simp_all add: keyToId_def dbKey_def replicaKey_def svcKey_def)

text \<open>
  C1, as stated, fails twice over. With \<^verbatim>\<open>db\<close> started and registered on port 3316, a start
  of \<^verbatim>\<open>replica\<close>, defined on the same port, whose probe of the port fails (as it does
  while the \<^verbatim>\<open>ssh\<close> of \<^verbatim>\<open>db\<close> has not yet opened it) returns without error: \<^verbatim>\<open>db\<close> is
  killed and dropped from the registry and \<^verbatim>\<open>replica\<close> is launched in its place. And when
  the probe succeeds, the error thrown is the message
  \<^verbatim>\<open>Port 3316 is already used by another forward\<close>, which names the port and not the
  forward that holds it.
\<close>

theorem start_same_port_counterexample:
  "dbKey \<noteq> replicaKey
   \<and> definedPort [stgEnv] dbKey = Some 3316 \<and> definedPort [stgEnv] replicaKey = Some 3316
   \<and> start devHost 0 True dbKey (newManager [stgEnv]) = (None, dbRunning)
   \<and> isRunning dbRunning dbKey
   \<and> fst (start devHost 5 False replicaKey dbRunning) = None
   \<and> \<not> isRunning (snd (start devHost 5 False replicaKey dbRunning)) dbKey
   \<and> isRunning (snd (start devHost 5 False replicaKey dbRunning)) replicaKey
   \<and> killed (snd (start devHost 5 False replicaKey dbRunning)) = [process dbProc]
   \<and> fst (start devHost 5 True replicaKey dbRunning)
       = Some (Error ''Port 3316 is already used by another forward'')"
proof -
  have "dbKey \<noteq> replicaKey" by (simp add: dbKey_def replicaKey_def)
  moreover have "start devHost 0 True dbKey (newManager [stgEnv]) = (None, dbRunning)"
    by (simp add: dbRunning_def start_db)
  moreover have "isRunning dbRunning dbKey"
    by (simp add: isRunning_def dbRunning_fields keyToId_def dbKey_def)
  moreover have "\<not> isRunning (snd (start devHost 5 False replicaKey dbRunning)) dbKey"
    "isRunning (snd (start devHost 5 False replicaKey dbRunning)) replicaKey"
    by (simp_all add: isRunning_def start_replica_stale keyToId_examples)
  moreover have "killed (snd (start devHost 5 False replicaKey dbRunning)) = [process dbProc]"
    by (simp add: start_replica_stale dbProc_def)
  ultimately show ?thesis
    by (simp add: definedPort_examples start_replica_stale start_replica_live)
qed

text \<open>
  C1, amended: for every two keys \<open>k1\<close> and \<open>k2\<close> whose configured definitions specify the
  same \<open>localPort\<close>, after \<^verbatim>\<open>start(k1)\<close> has launched \<open>k1\<close> and with \<open>k2\<close> not registered,
  a \<^verbatim>\<open>start(k2)\<close> whose probe finds the port accepting connections fails with the error
  \<^verbatim>\<open>Port <port> is already used by another forward\<close>, which communicates the port (and
  not the holder); the registry is unchanged, so \<open>k1\<close> remains registered and \<open>k2\<close> is not,
  nothing is killed, no notification fires, and the only processes spawned are the
  \<^verbatim>\<open>ssh-add\<close> calls for the environment's key files.
\<close>

theorem start_port_conflict:
  assumes "definedPort (envs s) k1 = Some port" and "definedPort (envs s) k2 = Some port"
    and "\<not> isRunning s k1" and "start h now ok k1 s = (None, s1)"
    and "\<not> isRunning s1 k2"
  shows "fst (start h' now' True k2 s1)
           = Some (Error (''Port '' @ numToString port @ '' is already used by another forward''))
       \<and> processes (snd (start h' now' True k2 s1)) = processes s1
       \<and> isRunning (snd (start h' now' True k2 s1)) k1
       \<and> \<not> isRunning (snd (start h' now' True k2 s1)) k2
       \<and> fired (snd (start h' now' True k2 s1)) = fired s1
       \<and> killed (snd (start h' now' True k2 s1)) = killed s1
       \<and> (\<exists>files. spawned (snd (start h' now' True k2 s1))
              = spawned s1 @ map (\<lambda>file. (''ssh-add'', [''-q'', file])) files)"
proof -
  from start_launched [OF assms(3,1,4)]
  have e: "envs s1 = envs s" and r: "isRunning s1 k1" and f: "findByPort s1 port \<noteq> None"
    by simp_all
  from f obtain holder where holder: "findByPort s1 port = Some holder" by auto
  from assms(2) e have "definedPort (envs s1) k2 = Some port" by simp
  from start_resolved [OF assms(5) this, of h' now' True]
  obtain env cmd as where
    st: "start h' now' True k2 s1 =
       (case portCheck True port (addSshKeysIfPresent h' env s1) of
          (Some e, s2) \<Rightarrow> (Some e, s2)
        | (None, s2) \<Rightarrow> (None, spawnAndTrack now' k2 cmd as port s2))"
    by auto
  from holder have "findByPort (addSshKeysIfPresent h' env s1) port = Some holder" by simp
  from portCheck_live [OF this] st
  have "start h' now' True k2 s1
      = (Some (Error (''Port '' @ numToString port @ '' is already used by another forward'')),
         (addSshKeysIfPresent h' env s1)
           \<lparr>probes := probes (addSshKeysIfPresent h' env s1) @ [(port, 300)]\<rparr>)"
    by simp
  with r assms(5) show ?thesis
    by (auto simp: isRunning_def addSshKeys_spawned)
qed

theorem start_port_conflict_witness:
  "definedPort (envs (newManager [stgEnv])) dbKey = Some 3316
   \<and> definedPort (envs (newManager [stgEnv])) replicaKey = Some 3316
   \<and> \<not> isRunning (newManager [stgEnv]) dbKey
   \<and> start devHost 0 True dbKey (newManager [stgEnv]) = (None, dbRunning)
   \<and> \<not> isRunning dbRunning replicaKey
   \<and> fst (start devHost 5 True replicaKey dbRunning)
       = Some (Error ''Port 3316 is already used by another forward'')
   \<and> processes (snd (start devHost 5 True replicaKey dbRunning)) = processes dbRunning
   \<and> isRunning (snd (start devHost 5 True replicaKey dbRunning)) dbKey
   \<and> fired (snd (start devHost 5 True replicaKey dbRunning)) = fired dbRunning"
proof -
  have h1: "definedPort (envs (newManager [stgEnv])) dbKey = Some 3316"
    and h2: "definedPort (envs (newManager [stgEnv])) replicaKey = Some 3316"
    by (simp_all add: newManager_def definedPort_examples)
  have h3: "\<not> isRunning (newManager [stgEnv]) dbKey"
    by (simp add: isRunning_def newManager_def)
  have h4: "start devHost 0 True dbKey (newManager [stgEnv]) = (None, dbRunning)"
    by (simp add: dbRunning_def start_db)
  have h5: "\<not> isRunning dbRunning replicaKey"
    by (simp add: isRunning_def dbRunning_fields keyToId_def replicaKey_def)
  have n: "numToString 3316 = ''3316''"
    by (simp add: numToString.simps digitChar_def)
  from start_port_conflict [OF h1 h2 h3 h4 h5, of devHost 5] h1 h2 h3 h4 h5 n
  show ?thesis by simp
qed

text \<open>
  C4: when \<^verbatim>\<open>start(k)\<close>, for a key that resolves and is not registered, finds the
  definition's \<open>localPort\<close> held by a registered forward, it probes the port once
  (\<^verbatim>\<open>isPortOpenNow(port, 300)\<close>). If the probe succeeds, the start fails with the port
  conflict error and neither kills nor removes anything. If the probe fails, the holder is
  killed, every entry on that port leaves the registry, the second conflict check passes
  and the start succeeds: the registry is the old one without the entries on that port,
  followed by the new entry for \<open>k\<close>.
\<close>

theorem start_prunes_stale_holder:
  assumes "\<not> isRunning s k" and "definedPort (envs s) k = Some port"
    and "findByPort s port = Some holder"
  shows "fst (start h now True k s)
           = Some (Error (''Port '' @ numToString port @ '' is already used by another forward''))
       \<and> processes (snd (start h now True k s)) = processes s
       \<and> killed (snd (start h now True k s)) = killed s
       \<and> probes (snd (start h now True k s)) = probes s @ [(port, 300)]
       \<and> fst (start h now False k s) = None
       \<and> killed (snd (start h now False k s)) = killed s @ [process holder]
       \<and> probes (snd (start h now False k s)) = probes s @ [(port, 300)]
       \<and> (\<exists>p. processes (snd (start h now False k s))
                 = filter (\<lambda>(i, q). localPort q \<noteq> port) (processes s) @ [(keyToId k, p)]
               \<and> key p = k \<and> localPort p = port \<and> startedAt p = now)"
proof -
  have live: "fst (start h now True k s)
           = Some (Error (''Port '' @ numToString port @ '' is already used by another forward''))
       \<and> processes (snd (start h now True k s)) = processes s
       \<and> killed (snd (start h now True k s)) = killed s
       \<and> probes (snd (start h now True k s)) = probes s @ [(port, 300)]"
  proof -
    from start_resolved [OF assms(1,2), of h now True]
    obtain env cmd as where
      st: "start h now True k s =
         (case portCheck True port (addSshKeysIfPresent h env s) of
            (Some e, s2) \<Rightarrow> (Some e, s2)
          | (None, s2) \<Rightarrow> (None, spawnAndTrack now k cmd as port s2))"
      by auto
    from assms(3) have "findByPort (addSshKeysIfPresent h env s) port = Some holder" by simp
    from portCheck_live [OF this] st show ?thesis by simp
  qed
  have stale: "fst (start h now False k s) = None
       \<and> killed (snd (start h now False k s)) = killed s @ [process holder]
       \<and> probes (snd (start h now False k s)) = probes s @ [(port, 300)]
       \<and> (\<exists>p. processes (snd (start h now False k s))
                 = filter (\<lambda>(i, q). localPort q \<noteq> port) (processes s) @ [(keyToId k, p)]
               \<and> key p = k \<and> localPort p = port \<and> startedAt p = now)"
  proof -
    from start_resolved [OF assms(1,2), of h now False]
    obtain env cmd as where
      st: "start h now False k s =
         (case portCheck False port (addSshKeysIfPresent h env s) of
            (Some e, s2) \<Rightarrow> (Some e, s2)
          | (None, s2) \<Rightarrow> (None, spawnAndTrack now k cmd as port s2))"
      by auto
    from assms(3) have holder: "findByPort (addSshKeysIfPresent h env s) port = Some holder"
      by simp
    from assms(1) have "keyToId k \<notin> fst ` set (processes s)"
      by (simp add: isRunning_def map_of_eq_None_iff)
    then have "keyToId k \<notin> fst ` set (filter (\<lambda>(i, q). localPort q \<noteq> port) (processes s))"
      by auto
    from update_fresh [OF this] portCheck_stale [OF holder] st show ?thesis
      by (simp add: spawnAndTrack_def Let_def)
  qed
  from live stale show ?thesis by simp
qed

theorem start_prunes_stale_holder_witness:
  "\<not> isRunning dbRunning replicaKey \<and> definedPort (envs dbRunning) replicaKey = Some 3316
   \<and> findByPort dbRunning 3316 = Some dbProc
   \<and> fst (start devHost 5 True replicaKey dbRunning)
       = Some (Error ''Port 3316 is already used by another forward'')
   \<and> processes (snd (start devHost 5 True replicaKey dbRunning)) = processes dbRunning
   \<and> fst (start devHost 5 False replicaKey dbRunning) = None
   \<and> killed (snd (start devHost 5 False replicaKey dbRunning)) = [process dbProc]
   \<and> map fst (processes (snd (start devHost 5 False replicaKey dbRunning)))
       = [''stg:ssh:replica'']"
proof -
  have h1: "\<not> isRunning dbRunning replicaKey"
    by (simp add: isRunning_def dbRunning_fields keyToId_def replicaKey_def)
  have h2: "definedPort (envs dbRunning) replicaKey = Some 3316"
    by (simp add: dbRunning_fields definedPort_examples)
  have h3: "findByPort dbRunning 3316 = Some dbProc"
    by (simp add: findByPort_def dbRunning_fields dbProc_def)
  have n: "numToString 3316 = ''3316''"
    by (simp add: numToString.simps digitChar_def)
  have k: "keyToId replicaKey = ''stg:ssh:replica''"
    by (simp add: keyToId_def replicaKey_def)
  have f: "filter (\<lambda>(i, q). localPort q \<noteq> 3316) (processes dbRunning) = []"
    by (simp add: dbRunning_fields dbProc_def)
  from start_prunes_stale_holder [OF h1 h2 h3, of devHost 5] h1 h2 h3 n k f
  show ?thesis by (auto simp: dbRunning_fields)
qed

lemma fold_sshAddStep_eq:
  "fold (sshAddStep h) fs s
     = s\<lparr>spawned := spawned s @ map (\<lambda>file. (''ssh-add'', [''-q'', file])) (filter (existsSync h) fs),
         outputLog := outputLog s
           @ map (\<lambda>file. ''ssh-add attempted for '' @ file) (filter (existsSync h) fs)\<rparr>"
  by (induction fs arbitrary: s) (simp_all add: sshAddStep_def)

lemma addSshKeys_eq:
  "addSshKeysIfPresent h env s
     = s\<lparr>spawned := spawned s @ map (\<lambda>file. (''ssh-add'', [''-q'', file]))
                         (filter (existsSync h) (uniq (map (expand h) (e_sshAddKeys env)))),
         outputLog := outputLog s @ map (\<lambda>file. ''ssh-add attempted for '' @ file)
                         (filter (existsSync h) (uniq (map (expand h) (e_sshAddKeys env))))\<rparr>"
  by (simp add: addSshKeysIfPresent_def Let_def fold_sshAddStep_eq)

lemma stgEnv_keyFiles:
  "filter (existsSync devHost) (uniq (map (expand devHost) (e_sshAddKeys stgEnv)))
     = [''/home/dev/.ssh/id_stg'']"
  by (simp add: stgEnv_def devHost_def expand_def)

lemma start_ghost:
  "start devHost 0 True ghostKey (newManager [stgEnv]) =
     (Some (Error ''Unknown ssh tunnel nope''),
      (newManager [stgEnv])
        \<lparr>spawned := [(''ssh-add'', [''-q'', ''/home/dev/.ssh/id_stg''])],
         outputLog := [''ssh-add attempted for /home/dev/.ssh/id_stg'']\<rparr>)"
  by (simp add: example_defs start_defs)

lemma start_stray:
  "start devHost 0 True strayKey (newManager [stgEnv])
     = (Some (Error ''Unknown env prod''), newManager [stgEnv])"
  by (simp add: example_defs start_defs)

text \<open>
  C10, as stated, fails where the environment resolves and the id does not: \<^verbatim>\<open>start\<close>
  runs \<^verbatim>\<open>addSshKeysIfPresent\<close> on the environment before it looks the id up, so for the
  key \<open>(stg, ssh, nope)\<close> it throws \<^verbatim>\<open>Unknown ssh tunnel nope\<close> after having spawned
  \<^verbatim>\<open>ssh-add -q /home/dev/.ssh/id_stg\<close>.
\<close>

theorem start_unknown_tunnel_counterexample:
  "\<not> isRunning (newManager [stgEnv]) ghostKey
   \<and> find (\<lambda>e. e_id e = envId ghostKey) (envs (newManager [stgEnv])) = Some stgEnv
   \<and> find (\<lambda>t. t_id t = key_id ghostKey) (e_sshTunnels stgEnv) = None
   \<and> fst (start devHost 0 True ghostKey (newManager [stgEnv]))
       = Some (Error ''Unknown ssh tunnel nope'')
   \<and> spawned (newManager [stgEnv]) = []
   \<and> spawned (snd (start devHost 0 True ghostKey (newManager [stgEnv])))
       = [(''ssh-add'', [''-q'', ''/home/dev/.ssh/id_stg''])]"
proof -
  have "\<not> isRunning (newManager [stgEnv]) ghostKey"
    by (simp add: isRunning_def newManager_def)
  moreover have "find (\<lambda>e. e_id e = envId ghostKey) (envs (newManager [stgEnv])) = Some stgEnv"
    by (simp add: newManager_def ghostKey_def) (simp add: stgEnv_def)
  moreover have "find (\<lambda>t. t_id t = key_id ghostKey) (e_sshTunnels stgEnv) = None"
    by (simp add: ghostKey_def stgEnv_def dbTunnel_def replicaTunnel_def)
  moreover have "spawned (newManager [stgEnv]) = []"
    by (simp add: newManager_def)
  ultimately show ?thesis by (simp add: start_ghost)
qed

text \<open>
  C10, amended: if \<^verbatim>\<open>start(k)\<close> is called for a key \<open>k\<close> that is not running and either
  \<open>k.envId\<close> matches no configured environment or \<open>k.id\<close> matches no tunnel/forward
  definition of the key's kind, \<^verbatim>\<open>start\<close> throws (\<^verbatim>\<open>Unknown env\<close>, \<^verbatim>\<open>Unknown ssh tunnel\<close>
  or \<^verbatim>\<open>Unknown k8s forward\<close>) and the registry, the failure counters and the
  configuration are identical to before the call, nothing is killed or probed, no change
  notification fires and no forwarding process is spawned. When the environment is unknown
  the state is unchanged altogether. When the environment resolves and only the id is
  unknown, the state differs from the one before in exactly this: for each of the
  environment's key files that exists (the \<^verbatim>\<open>sshAddKeys\<close>, expanded, without repetitions,
  in order) \<^verbatim>\<open>ssh-add -q <file>\<close> has been spawned and the line
  \<^verbatim>\<open>ssh-add attempted for <file>\<close> written to the output channel.
\<close>

theorem start_unknown_leaves_registry:
  assumes "\<not> isRunning s k"
    and "find (\<lambda>e. e_id e = envId k) (envs s) = None
       \<or> (\<exists>env. find (\<lambda>e. e_id e = envId k) (envs s) = Some env
              \<and> (if kind k = Ssh
                  then find (\<lambda>t. t_id t = key_id k) (e_sshTunnels env) = None
                  else find (\<lambda>f. f_id f = key_id k) (e_k8sForwards env) = None))"
  shows "fst (start h now ok k s)
           = Some (Error (if find (\<lambda>e. e_id e = envId k) (envs s) = None
                          then ''Unknown env '' @ envId k
                          else if kind k = Ssh then ''Unknown ssh tunnel '' @ key_id k
                          else ''Unknown k8s forward '' @ key_id k))
       \<and> envs (snd (start h now ok k s)) = envs s
       \<and> processes (snd (start h now ok k s)) = processes s
       \<and> portFailureCounts (snd (start h now ok k s)) = portFailureCounts s
       \<and> fired (snd (start h now ok k s)) = fired s
       \<and> killed (snd (start h now ok k s)) = killed s
       \<and> probes (snd (start h now ok k s)) = probes s
       \<and> (find (\<lambda>e. e_id e = envId k) (envs s) = None \<longrightarrow> snd (start h now ok k s) = s)
       \<and> (\<forall>env. find (\<lambda>e. e_id e = envId k) (envs s) = Some env \<longrightarrow>
            snd (start h now ok k s)
              = s\<lparr>spawned := spawned s @ map (\<lambda>file. (''ssh-add'', [''-q'', file]))
                     (filter (existsSync h) (uniq (map (expand h) (e_sshAddKeys env)))),
                  outputLog := outputLog s @ map (\<lambda>file. ''ssh-add attempted for '' @ file)
                     (filter (existsSync h) (uniq (map (expand h) (e_sshAddKeys env))))\<rparr>)"
proof -
  have none: "start h now ok k s = (Some (Error (''Unknown env '' @ envId k)), s)"
    if "find (\<lambda>e. e_id e = envId k) (envs s) = None"
    using that assms(1) by (simp add: start_def)
  have some: "start h now ok k s
      = (Some (Error (if kind k = Ssh then ''Unknown ssh tunnel '' @ key_id k
                      else ''Unknown k8s forward '' @ key_id k)),
         addSshKeysIfPresent h env s)"
    if "find (\<lambda>e. e_id e = envId k) (envs s) = Some env" for env
    using that assms by (auto simp: start_def Let_def)
  show ?thesis
  proof (cases "find (\<lambda>e. e_id e = envId k) (envs s)")
    case None
    with none show ?thesis by simp
  next
    case (Some env)
    from some [OF Some] have "start h now ok k s
      = (Some (Error (if kind k = Ssh then ''Unknown ssh tunnel '' @ key_id k
                      else ''Unknown k8s forward '' @ key_id k)),
         s\<lparr>spawned := spawned s @ map (\<lambda>file. (''ssh-add'', [''-q'', file]))
                     (filter (existsSync h) (uniq (map (expand h) (e_sshAddKeys env)))),
           outputLog := outputLog s @ map (\<lambda>file. ''ssh-add attempted for '' @ file)
                     (filter (existsSync h) (uniq (map (expand h) (e_sshAddKeys env))))\<rparr>)"
      by (simp only: addSshKeys_eq)
    with Some show ?thesis by simp
  qed
qed

theorem start_unknown_leaves_registry_witness:
  "\<not> isRunning dbRunning ghostKey
   \<and> find (\<lambda>e. e_id e = envId ghostKey) (envs dbRunning) = Some stgEnv
   \<and> kind ghostKey = Ssh
   \<and> find (\<lambda>t. t_id t = key_id ghostKey) (e_sshTunnels stgEnv) = None
   \<and> fst (start devHost 7 True ghostKey dbRunning) = Some (Error ''Unknown ssh tunnel nope'')
   \<and> snd (start devHost 7 True ghostKey dbRunning)
       = dbRunning\<lparr>spawned := spawned dbRunning
                        @ [(''ssh-add'', [''-q'', ''/home/dev/.ssh/id_stg''])],
                    outputLog := outputLog dbRunning
                        @ [''ssh-add attempted for /home/dev/.ssh/id_stg'']\<rparr>
   \<and> processes (snd (start devHost 7 True ghostKey dbRunning)) = processes dbRunning
   \<and> fired (snd (start devHost 7 True ghostKey dbRunning)) = fired dbRunning
   \<and> \<not> isRunning dbRunning strayKey
   \<and> find (\<lambda>e. e_id e = envId strayKey) (envs dbRunning) = None
   \<and> fst (start devHost 7 True strayKey dbRunning) = Some (Error ''Unknown env prod'')
   \<and> snd (start devHost 7 True strayKey dbRunning) = dbRunning"
proof -
  have g1: "\<not> isRunning dbRunning ghostKey"
    by (simp add: isRunning_def dbRunning_fields keyToId_def ghostKey_def)
  have g2: "find (\<lambda>e. e_id e = envId ghostKey) (envs dbRunning) = Some stgEnv"
    by (simp add: dbRunning_fields ghostKey_def) (simp add: stgEnv_def)
  have g3: "kind ghostKey = Ssh" by (simp add: ghostKey_def)
  have g4: "find (\<lambda>t. t_id t = key_id ghostKey) (e_sshTunnels stgEnv) = None"
    by (simp add: ghostKey_def stgEnv_def dbTunnel_def replicaTunnel_def)
  have g5: "key_id ghostKey = ''nope''" by (simp add: ghostKey_def)
  have s1: "\<not> isRunning dbRunning strayKey"
    by (simp add: isRunning_def dbRunning_fields keyToId_def strayKey_def)
  have s2: "find (\<lambda>e. e_id e = envId strayKey) (envs dbRunning) = None"
    by (simp add: dbRunning_fields strayKey_def) (simp add: stgEnv_def)
  have s3: "envId strayKey = ''prod''" by (simp add: strayKey_def)
  from g2 g3 g4 have gh: "find (\<lambda>e. e_id e = envId ghostKey) (envs dbRunning) = None
       \<or> (\<exists>env. find (\<lambda>e. e_id e = envId ghostKey) (envs dbRunning) = Some env
              \<and> (if kind ghostKey = Ssh
                  then find (\<lambda>t. t_id t = key_id ghostKey) (e_sshTunnels env) = None
                  else find (\<lambda>f. f_id f = key_id ghostKey) (e_k8sForwards env) = None))"
    by simp
  from s2 have sh: "find (\<lambda>e. e_id e = envId strayKey) (envs dbRunning) = None
       \<or> (\<exists>env. find (\<lambda>e. e_id e = envId strayKey) (envs dbRunning) = Some env
              \<and> (if kind strayKey = Ssh
                  then find (\<lambda>t. t_id t = key_id strayKey) (e_sshTunnels env) = None
                  else find (\<lambda>f. f_id f = key_id strayKey) (e_k8sForwards env) = None))"
    by simp
  from start_unknown_leaves_registry [OF g1 gh, of devHost 7 True] g2 g3 g5
  have a: "fst (start devHost 7 True ghostKey dbRunning) = Some (Error ''Unknown ssh tunnel nope'')
   \<and> snd (start devHost 7 True ghostKey dbRunning)
       = dbRunning\<lparr>spawned := spawned dbRunning
                        @ [(''ssh-add'', [''-q'', ''/home/dev/.ssh/id_stg''])],
                    outputLog := outputLog dbRunning
                        @ [''ssh-add attempted for /home/dev/.ssh/id_stg'']\<rparr>
   \<and> processes (snd (start devHost 7 True ghostKey dbRunning)) = processes dbRunning
   \<and> fired (snd (start devHost 7 True ghostKey dbRunning)) = fired dbRunning"
    by (simp add: stgEnv_keyFiles)
  from start_unknown_leaves_registry [OF s1 sh, of devHost 7 True] s2 s3
  have b: "fst (start devHost 7 True strayKey dbRunning) = Some (Error ''Unknown env prod'')
   \<and> snd (start devHost 7 True strayKey dbRunning) = dbRunning"
    by simp
  from a b g1 g2 g3 g4 s1 s2 show ?thesis by simp
qed

subsection \<open>Stopping and the change notification\<close>

lemma stop_not_running: "\<not> isRunning s k \<Longrightarrow> stop k s = s"
  by (simp add: stop_def isRunning_def Let_def)

lemma stop_running:
  "isRunning s k \<Longrightarrow>
   fired (stop k s) = fired s + 1 \<and> \<not> isRunning (stop k s) k"
  by (auto simp: stop_def isRunning_def Let_def AList.delete_conv')

lemma stopAll_empty: "processes s = [] \<Longrightarrow> stopAll s = s"
  by (simp add: stopAll_def)

lemma fold_stopAllStep:
  "fired (fold stopAllStep xs s) = fired s
   \<and> processes (fold stopAllStep xs s) = filter (\<lambda>ip. fst ip \<notin> fst ` set xs) (processes s)"
proof (induction xs arbitrary: s)
  case Nil
  then show ?case by simp
next
  case (Cons x xs)
  obtain i p where x: "x = (i, p)" by (cases x)
  have "filter (\<lambda>ip. fst ip \<notin> fst ` set xs) (AList.delete i (processes s))
      = filter (\<lambda>ip. fst ip \<notin> fst ` set (x # xs)) (processes s)"
    by (auto simp: AList.delete_eq x intro: filter_cong)
  with Cons [of "stopAllStep x s"] x show ?case
    by (simp add: stopAllStep_def)
qed

lemma stopAll_nonempty:
  "processes s \<noteq> [] \<Longrightarrow> fired (stopAll s) = fired s + 1 \<and> processes (stopAll s) = []"
  by (simp add: stopAll_def Let_def fold_stopAllStep filter_empty_conv)

lemma fold_stopEnvStep_fired: "fired (fold (stopEnvStep e) xs s) = fired s"
  by (induction xs arbitrary: s) (auto simp: stopEnvStep_def)

lemma stopAllForEnv_fired: "fired (stopAllForEnv e s) = fired s + 1"
  by (simp add: stopAllForEnv_def Let_def fold_stopEnvStep_fired)

lemma fold_stopEnvStep_no_match:
  "\<forall>ip \<in> set xs. envId (key (snd ip)) \<noteq> e \<Longrightarrow> fold (stopEnvStep e) xs s = s"
  by (induction xs arbitrary: s) (auto simp: stopEnvStep_def)

lemma stopAllForEnv_no_match:
  "\<forall>ip \<in> set (processes s). envId (key (snd ip)) \<noteq> e \<Longrightarrow>
   stopAllForEnv e s = s\<lparr>fired := fired s + 1\<rparr>"
  by (simp add: stopAllForEnv_def Let_def fold_stopEnvStep_no_match)

text \<open>
  C8 at the failing input: with \<^verbatim>\<open>db\<close> of the environment \<^verbatim>\<open>stg\<close> running, the batch stop
  \<^verbatim>\<open>stopAllForEnv('prod')\<close> matches nothing, kills nothing and leaves the registry as it
  was, and yet fires the change notification.
\<close>

theorem stopAllForEnv_fires_without_change:
  "processes (stopAllForEnv ''prod'' dbRunning) = processes dbRunning
   \<and> killed (stopAllForEnv ''prod'' dbRunning) = killed dbRunning
   \<and> getOccupiedPorts (stopAllForEnv ''prod'' dbRunning) = getOccupiedPorts dbRunning
   \<and> fired (stopAllForEnv ''prod'' dbRunning) = fired dbRunning + 1"
proof -
  have "\<forall>ip \<in> set (processes dbRunning). envId (key (snd ip)) \<noteq> ''prod''"
    by (simp add: dbRunning_fields dbProc_def dbKey_def)
  then have "stopAllForEnv ''prod'' dbRunning = dbRunning\<lparr>fired := fired dbRunning + 1\<rparr>"
    by (rule stopAllForEnv_no_match)
  then show ?thesis by (simp add: getOccupiedPorts_def)
qed

subsection \<open>The health sweep\<close>

lemma healthStep_other:
  assumes "j \<noteq> i"
  shows "map_of (processes (snd (healthStep E P n (j, q) cs))) i = map_of (processes (snd cs)) i"
    and "map_of (portFailureCounts (snd (healthStep E P n (j, q) cs))) i
           = map_of (portFailureCounts (snd cs)) i"
  using assms
  by (cases cs; simp add: healthStep_def Let_def AList.delete_conv' AList.update_conv'
        split: option.splits)+

lemma fold_healthStep_other:
  assumes "i \<notin> fst ` set xs"
  shows "map_of (processes (snd (fold (healthStep E P n) xs cs))) i = map_of (processes (snd cs)) i
       \<and> map_of (portFailureCounts (snd (fold (healthStep E P n) xs cs))) i
           = map_of (portFailureCounts (snd cs)) i"
  using assms
proof (induction xs arbitrary: cs)
  case Nil
  then show ?case by simp
next
  case (Cons x xs)
  obtain j q where x: "x = (j, q)" by (cases x)
  with Cons.prems have "j \<noteq> i" "i \<notin> fst ` set xs" by auto
  with Cons.IH [of "healthStep E P n x cs"] x show ?case
    by (simp add: healthStep_other)
qed

lemma healthStep_mono:
  "set (killed (snd cs)) \<subseteq> set (killed (snd (healthStep E P n x cs)))"
  "fst cs \<Longrightarrow> fst (healthStep E P n x cs)"
  "fired (snd (healthStep E P n x cs)) = fired (snd cs)"
  by (cases cs; cases x; auto simp: healthStep_def Let_def split: option.splits)+

lemma fold_healthStep_mono:
  "set (killed (snd cs)) \<subseteq> set (killed (snd (fold (healthStep E P n) xs cs)))
   \<and> (fst cs \<longrightarrow> fst (fold (healthStep E P n) xs cs))
   \<and> fired (snd (fold (healthStep E P n) xs cs)) = fired (snd cs)"
proof (induction xs arbitrary: cs)
  case Nil
  then show ?case by simp
next
  case (Cons x xs)
  from Cons [of "healthStep E P n x cs"]
    healthStep_mono [where cs = cs and E = E and P = P and n = n and x = x]
  show ?case by auto
qed

lemma healthStep_probe:
  assumes "E (process p) = None" and "\<not> n - startedAt p < healthGraceMs"
  shows "map_of (processes (snd (healthStep E P n (i, p) cs))) i
           = (if P i \<or> failuresOf (snd cs) i + 1 < 3 then map_of (processes (snd cs)) i else None)"
    and "map_of (portFailureCounts (snd (healthStep E P n (i, p) cs))) i
           = (if P i then None
              else if failuresOf (snd cs) i + 1 < 3 then Some (failuresOf (snd cs) i + 1)
              else None)"
    and "\<not> P i \<Longrightarrow> \<not> failuresOf (snd cs) i + 1 < 3 \<Longrightarrow>
           fst (healthStep E P n (i, p) cs)
         \<and> process p \<in> set (killed (snd (healthStep E P n (i, p) cs)))"
  using assms
  by (cases cs; simp add: healthStep_def failuresOf_def Let_def AList.delete_conv'
        AList.update_conv' split: option.splits)+

lemma healthCheck_fields:
  "processes (healthCheck E P n s) = processes (snd (fold (healthStep E P n) (processes s) (False, s)))"
  "portFailureCounts (healthCheck E P n s)
     = portFailureCounts (snd (fold (healthStep E P n) (processes s) (False, s)))"
  "killed (healthCheck E P n s) = killed (snd (fold (healthStep E P n) (processes s) (False, s)))"
  "probes (healthCheck E P n s) = probes (snd (fold (healthStep E P n) (processes s) (False, s)))"
  "fired (healthCheck E P n s)
     = (if fst (fold (healthStep E P n) (processes s) (False, s)) then fired s + 1 else fired s)"
  using fold_healthStep_mono [of "(False, s)" E P n "processes s"]
  by (cases "fold (healthStep E P n) (processes s) (False, s)"; simp add: healthCheck_def)+

text \<open>The sweep, seen from one entry that is probed.\<close>

lemma healthCheck_entry:
  assumes d: "distinct (map fst (processes s))" and m: "(i, p) \<in> set (processes s)"
    and e: "E (process p) = None" and g: "\<not> n - startedAt p < healthGraceMs"
  shows "map_of (processes (healthCheck E P n s)) i
           = (if P i \<or> failuresOf s i + 1 < 3 then Some p else None)"
    and "map_of (portFailureCounts (healthCheck E P n s)) i
           = (if P i then None
              else if failuresOf s i + 1 < 3 then Some (failuresOf s i + 1)
              else None)"
    and "\<not> P i \<Longrightarrow> \<not> failuresOf s i + 1 < 3 \<Longrightarrow>
           process p \<in> set (killed (healthCheck E P n s))
         \<and> fired (healthCheck E P n s) = fired s + 1"
proof -
  from m obtain xs ys where sp: "processes s = xs @ (i, p) # ys"
    by (auto simp: in_set_conv_decomp)
  with d have nx: "i \<notin> fst ` set xs" and ny: "i \<notin> fst ` set ys" by auto
  let ?a = "fold (healthStep E P n) xs (False, s)"
  let ?b = "healthStep E P n (i, p) ?a"
  let ?c = "fold (healthStep E P n) ys ?b"
  have c: "fold (healthStep E P n) (processes s) (False, s) = ?c" by (simp add: sp)
  from d m have mp: "map_of (processes s) i = Some p" by simp
  from fold_healthStep_other [OF nx, of E P n "(False, s)"] mp
  have a1: "map_of (processes (snd ?a)) i = Some p"
    and a2: "failuresOf (snd ?a) i = failuresOf s i"
    by (simp_all add: failuresOf_def)
  from fold_healthStep_other [OF ny, of E P n ?b]
  have c1: "map_of (processes (snd ?c)) i = map_of (processes (snd ?b)) i"
    and c2: "map_of (portFailureCounts (snd ?c)) i = map_of (portFailureCounts (snd ?b)) i"
    by simp_all
  from c1 healthStep_probe(1) [where E = E and p = p and n = n and P = P and i = i and cs = ?a, OF e g] a1 a2 c
  show "map_of (processes (healthCheck E P n s)) i
           = (if P i \<or> failuresOf s i + 1 < 3 then Some p else None)"
    by (simp add: healthCheck_fields)
  from c2 healthStep_probe(2) [where E = E and p = p and n = n and P = P and i = i and cs = ?a, OF e g] a2 c
  show "map_of (portFailureCounts (healthCheck E P n s)) i
           = (if P i then None
              else if failuresOf s i + 1 < 3 then Some (failuresOf s i + 1)
              else None)"
    by (simp add: healthCheck_fields)
  assume "\<not> P i" "\<not> failuresOf s i + 1 < 3"
  with healthStep_probe(3) [where E = E and p = p and n = n and P = P and i = i and cs = ?a, OF e g] a2
  have "fst ?b" "process p \<in> set (killed (snd ?b))" by simp_all
  with fold_healthStep_mono [of ?b E P n ys] c
  show "process p \<in> set (killed (healthCheck E P n s))
         \<and> fired (healthCheck E P n s) = fired s + 1"
    by (auto simp: healthCheck_fields)
qed

lemmas health_defs = healthCheck_def healthStep_def failuresOf_def healthGraceMs_def
  noExit_def allClosed_def numToString.simps digitChar_def Let_def

lemma dbFailed1_fields:
  "processes dbFailed1 = [(''stg:ssh:db'', dbProc)]"
  "portFailureCounts dbFailed1 = [(''stg:ssh:db'', 1)]"
  "killed dbFailed1 = []"
  "fired dbFailed1 = 1"
  "probes dbFailed1 = [(3316, 1200)]"
  unfolding dbFailed1_def
  by (simp_all add: health_defs dbRunning_fields) (simp_all add: dbProc_def)

lemma dbFailed2_fields:
  "processes dbFailed2 = [(''stg:ssh:db'', dbProc)]"
  "portFailureCounts dbFailed2 = [(''stg:ssh:db'', 2)]"
  "killed dbFailed2 = []"
  "fired dbFailed2 = 1"
  "probes dbFailed2 = [(3316, 1200), (3316, 1200)]"
  unfolding dbFailed2_def
  by (simp_all add: health_defs dbFailed1_fields) (simp_all add: dbProc_def)

lemma dbFailed3_fields:
  "processes dbFailed3 = []"
  "portFailureCounts dbFailed3 = []"
  "killed dbFailed3 = [1]"
  "fired dbFailed3 = 2"
  unfolding dbFailed3_def
  by (simp_all add: health_defs dbFailed2_fields) (simp_all add: dbProc_def)

text \<open>
  The sweep and the stored counter. For every registered forward whose process has not
  exited and whose age has reached the grace period: a successful probe leaves it
  registered and clears the counter kept under its index; a failed probe that brings that
  counter below 3 leaves it registered with the counter raised by one; a failed probe that
  brings the counter to 3 kills it, removes it from the registry, clears the counter and
  fires the change notification.
\<close>

theorem healthCheck_threshold:
  assumes "distinct (map fst (processes s))" and "(i, p) \<in> set (processes s)"
    and "exitCode (process p) = None" and "healthGraceMs \<le> now - startedAt p"
  shows "(portOpen i \<longrightarrow>
            map_of (processes (healthCheck exitCode portOpen now s)) i = Some p
          \<and> map_of (portFailureCounts (healthCheck exitCode portOpen now s)) i = None
          \<and> failuresOf (healthCheck exitCode portOpen now s) i = 0)
       \<and> (\<not> portOpen i \<and> failuresOf s i + 1 < 3 \<longrightarrow>
            map_of (processes (healthCheck exitCode portOpen now s)) i = Some p
          \<and> failuresOf (healthCheck exitCode portOpen now s) i = failuresOf s i + 1)
       \<and> (\<not> portOpen i \<and> 3 \<le> failuresOf s i + 1 \<longrightarrow>
            map_of (processes (healthCheck exitCode portOpen now s)) i = None
          \<and> map_of (portFailureCounts (healthCheck exitCode portOpen now s)) i = None
          \<and> process p \<in> set (killed (healthCheck exitCode portOpen now s))
          \<and> fired (healthCheck exitCode portOpen now s) = fired s + 1)"
proof -
  from assms(4) have g: "\<not> now - startedAt p < healthGraceMs" by simp
  note h = healthCheck_entry [where E = exitCode and P = portOpen and n = now,
      OF assms(1) assms(2) assms(3) g]
  from h(1) h(2) have
    "portOpen i \<longrightarrow>
            map_of (processes (healthCheck exitCode portOpen now s)) i = Some p
          \<and> map_of (portFailureCounts (healthCheck exitCode portOpen now s)) i = None
          \<and> failuresOf (healthCheck exitCode portOpen now s) i = 0"
    by (simp add: failuresOf_def)
  moreover from h(1) h(2) have
    "\<not> portOpen i \<and> failuresOf s i + 1 < 3 \<longrightarrow>
            map_of (processes (healthCheck exitCode portOpen now s)) i = Some p
          \<and> failuresOf (healthCheck exitCode portOpen now s) i = failuresOf s i + 1"
    by (simp add: failuresOf_def [of "healthCheck exitCode portOpen now s"])
  moreover from h(1) h(2) h(3) have
    "\<not> portOpen i \<and> 3 \<le> failuresOf s i + 1 \<longrightarrow>
            map_of (processes (healthCheck exitCode portOpen now s)) i = None
          \<and> map_of (portFailureCounts (healthCheck exitCode portOpen now s)) i = None
          \<and> process p \<in> set (killed (healthCheck exitCode portOpen now s))
          \<and> fired (healthCheck exitCode portOpen now s) = fired s + 1"
    by simp
  ultimately show ?thesis by blast
qed

theorem healthCheck_threshold_witness:
  "distinct (map fst (processes dbFailed1)) \<and> (''stg:ssh:db'', dbProc) \<in> set (processes dbFailed1)
   \<and> noExit (process dbProc) = None \<and> healthGraceMs \<le> 33000 - startedAt dbProc
   \<and> \<not> allClosed ''stg:ssh:db'' \<and> failuresOf dbFailed1 ''stg:ssh:db'' = 1
   \<and> map_of (processes dbFailed2) ''stg:ssh:db'' = Some dbProc
   \<and> failuresOf dbFailed2 ''stg:ssh:db'' = 2
   \<and> map_of (processes dbFailed3) ''stg:ssh:db'' = None
   \<and> map_of (portFailureCounts dbFailed3) ''stg:ssh:db'' = None
   \<and> process dbProc \<in> set (killed dbFailed3)
   \<and> fired dbFailed3 = fired dbFailed2 + 1
   \<and> map_of (processes (healthCheck noExit (\<lambda>i. True) 36000 dbFailed2)) ''stg:ssh:db''
       = Some dbProc
   \<and> failuresOf (healthCheck noExit (\<lambda>i. True) 36000 dbFailed2) ''stg:ssh:db'' = 0"
proof -
  have d1: "distinct (map fst (processes dbFailed1))"
    and d2: "distinct (map fst (processes dbFailed2))"
    by (simp_all add: dbFailed1_fields dbFailed2_fields)
  have m1: "(''stg:ssh:db'', dbProc) \<in> set (processes dbFailed1)"
    and m2: "(''stg:ssh:db'', dbProc) \<in> set (processes dbFailed2)"
    by (simp_all add: dbFailed1_fields dbFailed2_fields)
  have e: "noExit (process dbProc) = None" by (simp add: noExit_def)
  have g1: "healthGraceMs \<le> 33000 - startedAt dbProc"
    and g2: "healthGraceMs \<le> 36000 - startedAt dbProc"
    by (simp_all add: healthGraceMs_def dbProc_def)
  have c: "\<not> allClosed ''stg:ssh:db''" by (simp add: allClosed_def)
  have f1: "failuresOf dbFailed1 ''stg:ssh:db'' = 1"
    and f2: "failuresOf dbFailed2 ''stg:ssh:db'' = 2"
    by (simp_all add: failuresOf_def dbFailed1_fields dbFailed2_fields)
  from healthCheck_threshold [where exitCode = noExit and portOpen = allClosed, OF d1 m1 e g1] c f1
  have a: "map_of (processes dbFailed2) ''stg:ssh:db'' = Some dbProc
      \<and> failuresOf dbFailed2 ''stg:ssh:db'' = 2"
    by (simp add: dbFailed2_def)
  from healthCheck_threshold [where exitCode = noExit and portOpen = allClosed, OF d2 m2 e g2] c f2
  have b: "map_of (processes dbFailed3) ''stg:ssh:db'' = None
   \<and> map_of (portFailureCounts dbFailed3) ''stg:ssh:db'' = None
   \<and> process dbProc \<in> set (killed dbFailed3)
   \<and> fired dbFailed3 = fired dbFailed2 + 1"
    by (simp add: dbFailed3_def)
  from healthCheck_threshold [where exitCode = noExit and portOpen = "\<lambda>i. True", OF d2 m2 e g2]
  have o: "map_of (processes (healthCheck noExit (\<lambda>i. True) 36000 dbFailed2)) ''stg:ssh:db''
       = Some dbProc
   \<and> failuresOf (healthCheck noExit (\<lambda>i. True) 36000 dbFailed2) ''stg:ssh:db'' = 0"
    by simp
  from a b o d1 m1 e g1 c f1 show ?thesis by simp
qed

lemma healthStep_young:
  "E (process p) = None \<Longrightarrow> n - startedAt p < healthGraceMs \<Longrightarrow>
   healthStep E P n (i, p) cs = cs"
  by (cases cs) (simp add: healthStep_def)

lemma healthStep_indep:
  "j \<noteq> i \<or> E (process q) \<noteq> None \<or> n - startedAt q < healthGraceMs \<Longrightarrow>
   healthStep E (P(i := b)) n (j, q) cs = healthStep E P n (j, q) cs"
  by (cases cs) (auto simp: healthStep_def Let_def split: option.splits)

lemma fold_healthStep_indep:
  "\<forall>jq \<in> set xs. fst jq \<noteq> i \<or> E (process (snd jq)) \<noteq> None
       \<or> n - startedAt (snd jq) < healthGraceMs \<Longrightarrow>
   fold (healthStep E (P(i := b)) n) xs cs = fold (healthStep E P n) xs cs"
proof (induction xs arbitrary: cs)
  case Nil
  then show ?case by simp
next
  case (Cons x xs)
  obtain j q where x: "x = (j, q)" by (cases x)
  with Cons.prems
  have "j \<noteq> i \<or> E (process q) \<noteq> None \<or> n - startedAt q < healthGraceMs" by simp
  then have "healthStep E (P(i := b)) n (j, q) cs = healthStep E P n (j, q) cs"
    by (rule healthStep_indep)
  moreover from Cons.prems
  have "\<forall>jq \<in> set xs. fst jq \<noteq> i \<or> E (process (snd jq)) \<noteq> None
       \<or> n - startedAt (snd jq) < healthGraceMs" by simp
  from Cons.IH [OF this]
  have "fold (healthStep E (P(i := b)) n) xs (healthStep E P n (j, q) cs)
      = fold (healthStep E P n) xs (healthStep E P n (j, q) cs)" .
  ultimately show ?case by (simp only: x fold_simps comp_apply)
qed

lemma healthStep_probes:
  "probes (snd (healthStep E P n (j, q) cs))
     = probes (snd cs) @ (if E (process q) = None \<and> \<not> n - startedAt q < healthGraceMs
                          then [(localPort q, 1200)] else [])"
  by (cases cs) (simp add: healthStep_def Let_def split: option.splits)

lemma fold_healthStep_probes:
  "probes (snd (fold (healthStep E P n) xs cs))
     = probes (snd cs) @ map (\<lambda>(j, q). (localPort q, 1200))
         (filter (\<lambda>(j, q). E (process q) = None \<and> \<not> n - startedAt q < healthGraceMs) xs)"
proof (induction xs arbitrary: cs)
  case Nil
  then show ?case by simp
next
  case (Cons x xs)
  obtain j q where x: "x = (j, q)" by (cases x)
  from Cons [of "healthStep E P n x cs"] x show ?case
    by (simp add: healthStep_probes)
qed

text \<open>
  C6: for every registered forward whose age is below the grace period of 20 seconds, the
  result of \<^verbatim>\<open>healthCheck\<close> is the same whatever a probe for that forward would answer;
  the probes the sweep makes are those for the other entries that have not exited and are
  old enough; and unless its process has exited the forward stays registered, with its
  failure counter as it was.
\<close>

theorem healthCheck_grace:
  assumes "distinct (map fst (processes s))" and "(i, p) \<in> set (processes s)"
    and "now - startedAt p < healthGraceMs"
  shows "healthCheck exitCode (portOpen(i := b)) now s = healthCheck exitCode portOpen now s
       \<and> probes (healthCheck exitCode portOpen now s)
           = probes s @ map (\<lambda>(j, q). (localPort q, 1200))
               (filter (\<lambda>(j, q). j \<noteq> i \<and> exitCode (process q) = None
                                 \<and> \<not> now - startedAt q < healthGraceMs) (processes s))
       \<and> (exitCode (process p) = None \<longrightarrow>
            map_of (processes (healthCheck exitCode portOpen now s)) i = Some p
          \<and> map_of (portFailureCounts (healthCheck exitCode portOpen now s)) i
              = map_of (portFailureCounts s) i)"
proof -
  have only: "q = p" if "(i, q) \<in> set (processes s)" for q
    using that assms(1,2) by (meson eq_key_imp_eq_value)
  have young: "\<forall>jq \<in> set (processes s). fst jq \<noteq> i \<or> exitCode (process (snd jq)) \<noteq> None
       \<or> now - startedAt (snd jq) < healthGraceMs"
  proof
    fix jq assume "jq \<in> set (processes s)"
    with only [of "snd jq"] assms(3)
    show "fst jq \<noteq> i \<or> exitCode (process (snd jq)) \<noteq> None
       \<or> now - startedAt (snd jq) < healthGraceMs"
      by (cases jq) auto
  qed
  from fold_healthStep_indep [OF young]
  have indep: "healthCheck exitCode (portOpen(i := b)) now s = healthCheck exitCode portOpen now s"
    by (simp add: healthCheck_def)
  have "filter (\<lambda>(j, q). exitCode (process q) = None \<and> \<not> now - startedAt q < healthGraceMs)
          (processes s)
      = filter (\<lambda>(j, q). j \<noteq> i \<and> exitCode (process q) = None
                                 \<and> \<not> now - startedAt q < healthGraceMs) (processes s)"
    using young by (intro filter_cong) auto
  with fold_healthStep_probes [of exitCode portOpen now "processes s" "(False, s)"]
  have pr: "probes (healthCheck exitCode portOpen now s)
           = probes s @ map (\<lambda>(j, q). (localPort q, 1200))
               (filter (\<lambda>(j, q). j \<noteq> i \<and> exitCode (process q) = None
                                 \<and> \<not> now - startedAt q < healthGraceMs) (processes s))"
    by (simp add: healthCheck_fields)
  have stay: "map_of (processes (healthCheck exitCode portOpen now s)) i = Some p
          \<and> map_of (portFailureCounts (healthCheck exitCode portOpen now s)) i
              = map_of (portFailureCounts s) i" if e: "exitCode (process p) = None"
  proof -
    from assms(2) obtain xs ys where sp: "processes s = xs @ (i, p) # ys"
      by (auto simp: in_set_conv_decomp)
    with assms(1) have nx: "i \<notin> fst ` set xs" and ny: "i \<notin> fst ` set ys" by auto
    let ?a = "fold (healthStep exitCode portOpen now) xs (False, s)"
    from e assms(3) have "healthStep exitCode portOpen now (i, p) ?a = ?a"
      by (rule healthStep_young)
    then have "fold (healthStep exitCode portOpen now) (processes s) (False, s)
        = fold (healthStep exitCode portOpen now) ys ?a"
      by (simp add: sp)
    with fold_healthStep_other [OF ny, of exitCode portOpen now ?a]
      fold_healthStep_other [OF nx, of exitCode portOpen now "(False, s)"]
      assms(1,2)
    show ?thesis by (simp add: healthCheck_fields)
  qed
  from indep pr stay show ?thesis by blast
qed

theorem healthCheck_grace_witness:
  "distinct (map fst (processes dbRunning)) \<and> (''stg:ssh:db'', dbProc) \<in> set (processes dbRunning)
   \<and> 10000 - startedAt dbProc < healthGraceMs \<and> noExit (process dbProc) = None
   \<and> healthCheck noExit (allClosed(''stg:ssh:db'' := True)) 10000 dbRunning
       = healthCheck noExit allClosed 10000 dbRunning
   \<and> probes (healthCheck noExit allClosed 10000 dbRunning) = probes dbRunning
   \<and> map_of (processes (healthCheck noExit allClosed 10000 dbRunning)) ''stg:ssh:db''
       = Some dbProc
   \<and> map_of (portFailureCounts (healthCheck noExit allClosed 10000 dbRunning)) ''stg:ssh:db''
       = None"
proof -
  have d: "distinct (map fst (processes dbRunning))"
    and m: "(''stg:ssh:db'', dbProc) \<in> set (processes dbRunning)"
    by (simp_all add: dbRunning_fields)
  have g: "10000 - startedAt dbProc < healthGraceMs"
    by (simp add: healthGraceMs_def dbProc_def)
  have e: "noExit (process dbProc) = None" by (simp add: noExit_def)
  from healthCheck_grace [where exitCode = noExit and portOpen = allClosed and b = True,
      OF d m g] d m g e
  show ?thesis by (simp add: dbRunning_fields)
qed

lemma dbFailed2_traces:
  "envs dbFailed2 = [stgEnv]"
  "spawned dbFailed2 = spawned dbRunning"
  unfolding dbFailed2_def dbFailed1_def
  by (simp_all add: health_defs dbRunning_fields dbProc_def)

lemma dbStopped_fields:
  "envs dbStopped = [stgEnv]"
  "processes dbStopped = []"
  "portFailureCounts dbStopped = [(''stg:ssh:db'', 2)]"
  "spawned dbStopped = spawned dbRunning"
  "killed dbStopped = [1]"
  "fired dbStopped = 2"
  "probes dbStopped = probes dbFailed2"
  unfolding dbStopped_def
  by (simp_all add: stop_def Let_def dbFailed2_fields dbFailed2_traces keyToId_examples
      dbProc_def)

lemma start_db_restart:
  "fst (start devHost 40000 True dbKey dbStopped) = None"
  "processes dbRestarted = [(''stg:ssh:db'', dbProc\<lparr>process := 3, startedAt := 40000\<rparr>)]"
  "portFailureCounts dbRestarted = [(''stg:ssh:db'', 2)]"
  "killed dbRestarted = [1]"
  "fired dbRestarted = 3"
  "probes dbRestarted = probes dbFailed2"
  unfolding dbRestarted_def
  by (simp_all add: example_defs start_defs dbStopped_fields dbRunning_fields)

text \<open>
  C5 at the failing input. The failure counter is kept under the registry index and
  \<^verbatim>\<open>stop\<close> does not clear it. \<^verbatim>\<open>db\<close> is started, fails two probes and is still
  registered, with the counter at 2; it is stopped and started again at 40 s, and the new
  forward has not been probed yet. In the sweep at 61 s, past the grace period of the new
  forward and with its process running, its first probe fails: the counter goes to 3 and
  the forward is killed and removed, after one failed probe and not three.
\<close>

theorem healthCheck_stale_counter_evicts_early:
  "map_of (processes dbFailed2) ''stg:ssh:db'' = Some dbProc
   \<and> failuresOf dbFailed2 ''stg:ssh:db'' = 2
   \<and> isRunning dbFailed2 dbKey
   \<and> \<not> isRunning dbStopped dbKey
   \<and> failuresOf dbStopped ''stg:ssh:db'' = 2
   \<and> fst (start devHost 40000 True dbKey dbStopped) = None
   \<and> processes dbRestarted = [(''stg:ssh:db'', dbProc\<lparr>process := 3, startedAt := 40000\<rparr>)]
   \<and> probes dbRestarted = probes dbFailed2
   \<and> noExit 3 = None
   \<and> healthGraceMs \<le> 61000 - 40000
   \<and> processes (healthCheck noExit allClosed 61000 dbRestarted) = []
   \<and> portFailureCounts (healthCheck noExit allClosed 61000 dbRestarted) = []
   \<and> killed (healthCheck noExit allClosed 61000 dbRestarted) = [1, 3]
   \<and> probes (healthCheck noExit allClosed 61000 dbRestarted) = probes dbRestarted @ [(3316, 1200)]
   \<and> fired (healthCheck noExit allClosed 61000 dbRestarted) = fired dbRestarted + 1"
proof -
  have a: "map_of (processes dbFailed2) ''stg:ssh:db'' = Some dbProc"
    "failuresOf dbFailed2 ''stg:ssh:db'' = 2" "isRunning dbFailed2 dbKey"
    by (simp_all add: dbFailed2_fields failuresOf_def isRunning_def keyToId_examples)
  have b: "\<not> isRunning dbStopped dbKey" "failuresOf dbStopped ''stg:ssh:db'' = 2"
    by (simp_all add: dbStopped_fields failuresOf_def isRunning_def)
  have c: "noExit 3 = None" "healthGraceMs \<le> 61000 - 40000"
    by (simp_all add: noExit_def healthGraceMs_def)
  have d: "processes (healthCheck noExit allClosed 61000 dbRestarted) = []"
    "portFailureCounts (healthCheck noExit allClosed 61000 dbRestarted) = []"
    "killed (healthCheck noExit allClosed 61000 dbRestarted) = [1, 3]"
    "probes (healthCheck noExit allClosed 61000 dbRestarted) = probes dbRestarted @ [(3316, 1200)]"
    "fired (healthCheck noExit allClosed 61000 dbRestarted) = fired dbRestarted + 1"
    by (simp_all add: health_defs start_db_restart) (simp_all add: dbProc_def)
  from a b c d show ?thesis by (simp add: start_db_restart)
qed

subsection \<open>Static validation\<close>

lemma set_uniq [simp]: "set (uniq xs) = set xs"
  by (induction xs rule: uniq.induct) auto

lemma distinct_uniq [simp]: "distinct (uniq xs)"
  by (induction xs rule: uniq.induct) auto

lemma uniq_snoc: "uniq (xs @ [p]) = (if p \<in> set xs then uniq xs else uniq xs @ [p])"
  by (induction xs rule: uniq.induct) auto

lemma usersOf_snoc:
  "usersOf (ds @ [d]) q = usersOf ds q @ (if fst d = q then [snd d] else [])"
  by (simp add: usersOf_def)

lemma usersOf_unused: "p \<notin> fst ` set ds \<Longrightarrow> usersOf ds p = []"
  by (auto simp: usersOf_def filter_empty_conv)

lemma map_of_tabulate:
  "map_of (map (\<lambda>q. (q, f q)) ks) p = (if p \<in> set ks then Some (f p) else None)"
  by (induction ks) auto

lemma update_tabulate:
  "distinct ks \<Longrightarrow> p \<in> set ks \<Longrightarrow>
   AList.update p v (map (\<lambda>q. (q, f q)) ks) = map (\<lambda>q. (q, if q = p then v else f q)) ks"
  by (induction ks) auto

text \<open>The \<^verbatim>\<open>Map\<close> that the two loops over the definitions build.\<close>

lemma fold_add:
  "fold (\<lambda>d. add (fst d) (snd d)) ds []
     = map (\<lambda>q. (q, usersOf ds q)) (uniq (map fst ds))"
proof (induction ds rule: rev_induct)
  case Nil
  then show ?case by simp
next
  case (snoc d ds)
  let ?ks = "uniq (map fst ds)"
  let ?M = "map (\<lambda>q. (q, usersOf ds q)) ?ks"
  have step: "fold (\<lambda>d. add (fst d) (snd d)) (ds @ [d]) [] = add (fst d) (snd d) ?M"
    by (simp add: snoc)
  show ?case
  proof (cases "fst d \<in> fst ` set ds")
    case True
    then have "add (fst d) (snd d) ?M
        = AList.update (fst d) (usersOf ds (fst d) @ [snd d]) ?M"
      by (simp add: add_def map_of_tabulate)
    also from True have "\<dots> = map (\<lambda>q. (q, if q = fst d then usersOf ds (fst d) @ [snd d]
                                          else usersOf ds q)) ?ks"
      by (simp add: update_tabulate)
    also have "\<dots> = map (\<lambda>q. (q, usersOf (ds @ [d]) q)) ?ks"
      by (auto simp: usersOf_snoc)
    finally show ?thesis using True step by (simp add: uniq_snoc)
  next
    case False
    then have "add (fst d) (snd d) ?M = AList.update (fst d) [snd d] ?M"
      by (simp add: add_def map_of_tabulate)
    also from False have "\<dots> = ?M @ [(fst d, [snd d])]"
      by (intro update_fresh) (simp add: image_image)
    also from False have "\<dots> = map (\<lambda>q. (q, usersOf (ds @ [d]) q)) (?ks @ [fst d])"
      by (auto simp: usersOf_snoc usersOf_unused)
    finally show ?thesis using False step by (simp add: uniq_snoc)
  qed
qed

lemma seenOf_forwardDefs:
  "seenOf env = map (\<lambda>q. (q, usersOf (forwardDefs env) q)) (uniq (map fst (forwardDefs env)))"
proof -
  have "seenOf env = fold (\<lambda>d. add (fst d) (snd d)) (forwardDefs env) []"
    by (simp add: seenOf_def forwardDefs_def fold_map comp_def)
  then show ?thesis by (simp add: fold_add)
qed

lemma validateEnv_refines: "validateEnv env = validateEnv_spec env"
  by (simp add: validateEnv_def validateEnv_spec_def duplicatePorts_def seenOf_forwardDefs
      filter_map comp_def)


lemma validateEnv_eq: "validateEnv = validateEnv_spec"
  by (rule ext) (rule validateEnv_refines)

lemma set_duplicatePorts:
  "set (duplicatePorts env) = {port. 1 < length (usersOf (forwardDefs env) port)}"
proof -
  have "port \<in> fst ` set (forwardDefs env)"
    if "1 < length (usersOf (forwardDefs env) port)" for port
    using that usersOf_unused [of port "forwardDefs env"] by (cases "port \<in> fst ` set (forwardDefs env)") auto
  then show ?thesis by (auto simp: duplicatePorts_def)
qed

text \<open>
  C9: \<^verbatim>\<open>validateConfigDuplicates\<close> depends on nothing but the configuration (it gives
  what a fresh manager with the same environments gives). It is the concatenation, over
  the environments in order, of one diagnostic for each port that more than one
  definition of the environment uses: the ports come each once, and the diagnostic of a
  port is \<^verbatim>\<open>Env <name>: localPort <port> used by\<close> followed by the identifiers of all the
  definitions on that port, tunnels before Kubernetes forwards, joined with commas. An
  environment whose definitions are two SSH tunnels on the local port 3306 gives exactly
  one diagnostic, which names both.
\<close>

theorem validateConfigDuplicates_spec:
  "validateConfigDuplicates s = validateConfigDuplicates (newManager (envs s))
   \<and> validateConfigDuplicates s = concat (map validateEnv_spec (envs s))
   \<and> validateEnv_spec env
       = map (\<lambda>port. ''Env '' @ e_name env @ '': localPort '' @ numToString port @ '' used by ''
                        @ join '', '' (usersOf (forwardDefs env) port))
           (duplicatePorts env)
   \<and> distinct (duplicatePorts env)
   \<and> set (duplicatePorts env) = {port. 1 < length (usersOf (forwardDefs env) port)}
   \<and> (e_sshTunnels env = [t1, t2] \<and> t_localPort t1 = 3306 \<and> t_localPort t2 = 3306
        \<and> e_k8sForwards env = [] \<longrightarrow>
      validateConfigDuplicates (newManager [env])
        = [''Env '' @ e_name env @ '': localPort 3306 used by ssh:'' @ t_id t1
             @ '', ssh:'' @ t_id t2])"
proof -
  have a: "validateConfigDuplicates s = validateConfigDuplicates (newManager (envs s))"
    by (simp add: validateConfigDuplicates_def newManager_def)
  have b: "validateConfigDuplicates s = concat (map validateEnv_spec (envs s))"
    by (simp add: validateConfigDuplicates_def validateEnv_eq)
  have c: "validateEnv_spec env
       = map (\<lambda>port. ''Env '' @ e_name env @ '': localPort '' @ numToString port @ '' used by ''
                        @ join '', '' (usersOf (forwardDefs env) port))
           (duplicatePorts env)"
    by (simp add: validateEnv_spec_def diagnostic_def)
  have d: "distinct (duplicatePorts env)"
    by (simp add: duplicatePorts_def)
  have n: "numToString 3306 = ''3306''"
    by (simp add: numToString.simps digitChar_def)
  have e: "validateConfigDuplicates (newManager [env])
        = [''Env '' @ e_name env @ '': localPort 3306 used by ssh:'' @ t_id t1
             @ '', ssh:'' @ t_id t2]"
    if "e_sshTunnels env = [t1, t2]" "t_localPort t1 = 3306" "t_localPort t2 = 3306"
      "e_k8sForwards env = []"
    using that
    by (simp add: validateConfigDuplicates_def newManager_def validateEnv_def seenOf_def
        add_def diagnostic_def n)
  from a b c d e set_duplicatePorts [of env] show ?thesis by blast
qed

theorem validateConfigDuplicates_spec_witness:
  "e_sshTunnels mysqlEnv = [dbTunnel\<lparr>t_id := ''primary'', t_localPort := 3306\<rparr>,
                            replicaTunnel\<lparr>t_localPort := 3306\<rparr>]
   \<and> e_k8sForwards mysqlEnv = []
   \<and> validateConfigDuplicates (newManager [mysqlEnv])
       = [''Env Dev: localPort 3306 used by ssh:primary, ssh:replica'']
   \<and> validateConfigDuplicates (dbRunning\<lparr>envs := [mysqlEnv]\<rparr>)
       = [''Env Dev: localPort 3306 used by ssh:primary, ssh:replica'']"
proof -
  have t: "e_sshTunnels mysqlEnv = [dbTunnel\<lparr>t_id := ''primary'', t_localPort := 3306\<rparr>,
                            replicaTunnel\<lparr>t_localPort := 3306\<rparr>]"
    and k: "e_k8sForwards mysqlEnv = []"
    and m: "e_name mysqlEnv = ''Dev''"
    by (simp_all add: mysqlEnv_def)
  have p: "t_localPort (dbTunnel\<lparr>t_id := ''primary'', t_localPort := 3306\<rparr>) = 3306"
    "t_localPort (replicaTunnel\<lparr>t_localPort := 3306\<rparr>) = 3306"
    "t_id (dbTunnel\<lparr>t_id := ''primary'', t_localPort := 3306\<rparr>) = ''primary''"
    "t_id (replicaTunnel\<lparr>t_localPort := 3306\<rparr>) = ''replica''"
    by (simp_all add: replicaTunnel_def)
  have "e_sshTunnels mysqlEnv = [dbTunnel\<lparr>t_id := ''primary'', t_localPort := 3306\<rparr>,
                            replicaTunnel\<lparr>t_localPort := 3306\<rparr>]
      \<and> t_localPort (dbTunnel\<lparr>t_id := ''primary'', t_localPort := 3306\<rparr>) = 3306
      \<and> t_localPort (replicaTunnel\<lparr>t_localPort := 3306\<rparr>) = 3306
      \<and> e_k8sForwards mysqlEnv = [] \<longrightarrow>
      validateConfigDuplicates (newManager [mysqlEnv])
        = [''Env '' @ e_name mysqlEnv @ '': localPort 3306 used by ssh:''
             @ t_id (dbTunnel\<lparr>t_id := ''primary'', t_localPort := 3306\<rparr>)
             @ '', ssh:'' @ t_id (replicaTunnel\<lparr>t_localPort := 3306\<rparr>)]"
    using validateConfigDuplicates_spec [of "newManager [mysqlEnv]" mysqlEnv
      "dbTunnel\<lparr>t_id := ''primary'', t_localPort := 3306\<rparr>"
      "replicaTunnel\<lparr>t_localPort := 3306\<rparr>"]
    by blast
  with t k m p
  have a: "validateConfigDuplicates (newManager [mysqlEnv])
       = [''Env Dev: localPort 3306 used by ssh:primary, ssh:replica'']"
    by simp
  have "validateConfigDuplicates (dbRunning\<lparr>envs := [mysqlEnv]\<rparr>)
      = validateConfigDuplicates (newManager (envs (dbRunning\<lparr>envs := [mysqlEnv]\<rparr>)))"
    using validateConfigDuplicates_spec [of "dbRunning\<lparr>envs := [mysqlEnv]\<rparr>"]
    by blast
  with a have "validateConfigDuplicates (dbRunning\<lparr>envs := [mysqlEnv]\<rparr>)
       = [''Env Dev: localPort 3306 used by ssh:primary, ssh:replica'']"
    by simp
  with a t k show ?thesis by simp
qed

subsection \<open>The registry stays a map\<close>

text \<open>
  The indices of the registry are distinct in the fresh manager, and every operation keeps
  them so: the association list does stand for a \<^verbatim>\<open>Map\<close>.
\<close>

lemma newManager_distinct: "distinct (map fst (processes (newManager es)))"
  by (simp add: newManager_def)

lemma spawnAndTrack_distinct:
  "distinct (map fst (processes s)) \<Longrightarrow>
   distinct (map fst (processes (spawnAndTrack now k cmd as port s)))"
  by (simp add: spawnAndTrack_def Let_def AList.distinct_update)

lemma portCheck_distinct:
  "distinct (map fst (processes s)) \<Longrightarrow>
   distinct (map fst (processes (snd (portCheck ok port s))))"
  by (simp add: portCheck_def pruneDeadByPort_def Let_def distinct_map_filter
      split: option.splits)

lemma start_distinct:
  assumes "distinct (map fst (processes s))"
  shows "distinct (map fst (processes (snd (start h now ok k s))))"
proof -
  have pc: "distinct (map fst (processes (snd (portCheck ok port (addSshKeysIfPresent h env s)))))"
    for port env
    using assms by (intro portCheck_distinct) simp
  have "distinct (map fst (processes s2))"
    if "portCheck ok port (addSshKeysIfPresent h env s) = (r, s2)" for port env r s2
    using pc [of port env] that by simp
  with assms show ?thesis
    by (auto simp: start_def Let_def spawnAndTrack_distinct split: option.splits prod.splits)
qed

lemma stop_distinct:
  "distinct (map fst (processes s)) \<Longrightarrow> distinct (map fst (processes (stop k s)))"
  by (simp add: stop_def Let_def AList.distinct_delete split: option.splits)

lemma fold_stopEnvStep_distinct:
  "distinct (map fst (processes s)) \<Longrightarrow>
   distinct (map fst (processes (fold (stopEnvStep e) xs s)))"
  by (induction xs arbitrary: s) (auto simp: stopEnvStep_def AList.distinct_delete)

lemma stopAllForEnv_distinct:
  "distinct (map fst (processes s)) \<Longrightarrow> distinct (map fst (processes (stopAllForEnv e s)))"
  by (simp add: stopAllForEnv_def Let_def fold_stopEnvStep_distinct)

lemma stopAll_distinct:
  "distinct (map fst (processes s)) \<Longrightarrow> distinct (map fst (processes (stopAll s)))"
  by (cases "processes s = []") (simp_all add: stopAll_empty stopAll_nonempty)

lemma healthStep_distinct:
  "distinct (map fst (processes (snd cs))) \<Longrightarrow>
   distinct (map fst (processes (snd (healthStep E P n x cs))))"
  by (cases cs; cases x)
     (auto simp: healthStep_def Let_def AList.distinct_delete split: option.splits)

lemma healthCheck_distinct:
  assumes "distinct (map fst (processes s))"
  shows "distinct (map fst (processes (healthCheck E P n s)))"
proof -
  have "distinct (map fst (processes (snd cs))) \<Longrightarrow>
      distinct (map fst (processes (snd (fold (healthStep E P n) xs cs))))" for xs cs
    by (induction xs arbitrary: cs) (simp_all add: healthStep_distinct)
  from this [of "(False, s)" "processes s"] assms show ?thesis
    by (simp add: healthCheck_fields)
qed

text \<open>
  The scenario of the specification: after the start of \<^verbatim>\<open>db\<close> the occupied ports are
  \<^verbatim>\<open>[3316]\<close>, and a stop empties them.
\<close>

lemma occupied_after_start_and_stop:
  "getOccupiedPorts dbRunning = [3316]"
  "getPortUsage dbRunning = [(3316, ''stg:ssh:db'')]"
  "getOccupiedPorts (stop dbKey dbRunning) = []"
  "fired (stop dbKey dbRunning) = 2"
  by (simp_all add: getOccupiedPorts_def getPortUsage_def stop_def Let_def dbRunning_fields
      keyToId_examples)
     (simp_all add: dbProc_def keyToId_examples)

end
